theory Spec2Isabelle
  imports Main
begin

section \<open>Python values, exceptions and the world the downloader runs in\<close>

text \<open>
  The theory embeds \<^verbatim>\<open>downloaders.py\<close>: the classes \<^verbatim>\<open>MediaDownloader\<close> and
  \<^verbatim>\<open>MediaDownloadHelper\<close>. Every method becomes a function that takes the world
  (file system, shared counter, traces of the calls made to the outside) and returns a
  result together with the new world. A result is \<open>Inl e\<close> when the method raises
  \<open>e\<close> and \<open>Inr v\<close> when it returns \<open>v\<close>.

  The type \<open>exn\<close> stands for instances of Python's class \<^verbatim>\<open>Exception\<close>, which is
  what every handler of the file (\<^verbatim>\<open>except Exception as e\<close>) catches.
\<close>

datatype exn =
    KeyError
  | IndexError
  | TypeError
  | HTTPError nat
  | External string

text \<open>
  The value of \<^verbatim>\<open>post_details['preview']\<close> is structured data decoded from JSON.
  A dictionary is an association list with distinct keys, read with \<open>map_of\<close>.
\<close>

datatype json =
    JNull
  | JBool bool
  | JNum int
  | JStr string
  | JList "json list"
  | JDict "(string \<times> json) list"

text \<open>\<^verbatim>\<open>v[k]\<close> for a string key \<open>k\<close>: only a dictionary can be subscripted by a string.\<close>

fun getitem_key :: "json \<Rightarrow> string \<Rightarrow> exn + json" where
  "getitem_key (JDict kvs) k =
     (case map_of kvs k of None \<Rightarrow> Inl KeyError | Some v \<Rightarrow> Inr v)"
| "getitem_key JNull k = Inl TypeError"
| "getitem_key (JBool b) k = Inl TypeError"
| "getitem_key (JNum n) k = Inl TypeError"
| "getitem_key (JStr s) k = Inl TypeError"
| "getitem_key (JList xs) k = Inl TypeError"

text \<open>
  \<^verbatim>\<open>v[0]\<close>: the first element of a list, the first character of a string (a string of
  length one), \<^verbatim>\<open>KeyError\<close> on a dictionary (its keys are strings), \<^verbatim>\<open>TypeError\<close>
  on anything else.
\<close>

fun getitem_0 :: "json \<Rightarrow> exn + json" where
  "getitem_0 (JList xs) = (case xs of [] \<Rightarrow> Inl IndexError | x # _ \<Rightarrow> Inr x)"
| "getitem_0 (JStr s) = (case s of [] \<Rightarrow> Inl IndexError | c # _ \<Rightarrow> Inr (JStr [c]))"
| "getitem_0 (JDict kvs) = Inl KeyError"
| "getitem_0 JNull = Inl TypeError"
| "getitem_0 (JBool b) = Inl TypeError"
| "getitem_0 (JNum n) = Inl TypeError"

text \<open>
  The post handed to \<^verbatim>\<open>download_post\<close>. The fields \<^verbatim>\<open>domain\<close>, \<^verbatim>\<open>url\<close> and
  \<^verbatim>\<open>title\<close> are read with \<^verbatim>\<open>.get\<close>, which gives \<^verbatim>\<open>None\<close> for a missing key and
  for a null value alike, and are strings where present (the constructor of
  \<^verbatim>\<open>MediaDownloadHelper\<close> annotates them \<^verbatim>\<open>str\<close>). The field \<open>preview\<close> is
  \<open>None\<close> when the key \<^verbatim>\<open>'preview'\<close> is not in the dictionary.
\<close>

record post_details =
  domain :: "string option"
  url :: "string option"
  title :: "string option"
  preview :: "json option"

text \<open>The response of \<^verbatim>\<open>requests.get(url, stream=True)\<close>: the status code, the
  chunks that \<^verbatim>\<open>iter_content\<close> yields, and the exception it raises after them when the
  connection breaks.\<close>

record response =
  status_code :: nat
  chunks :: "string list"
  broken :: "exn option"

text \<open>
  The world. \<open>global_counter\<close> is the state of the shared
  \<^verbatim>\<open>MultiProcessingCounterAndStatusBar\<close>; \<open>files\<close> maps a path to the bytes of the
  file there. The other three fields are traces kept by the model: the arguments of
  every \<^verbatim>\<open>increment_counter\<close> call, of every \<^verbatim>\<open>requests.get\<close> call, of every
  \<^verbatim>\<open>get_gfycat_redgif_url\<close> call, and the lines given to \<^verbatim>\<open>logging.error\<close>
  (message prefix and exception).
\<close>

record 'c world =
  global_counter :: 'c
  files :: "string \<rightharpoonup> string"
  attempts :: "bool list"
  requests :: "json list"
  lookups :: "(string \<times> string) list"
  log :: "(string \<times> exn) list"

text \<open>
  The collaborators of \<^verbatim>\<open>downloaders.py\<close> whose code is in other modules
  (\<^verbatim>\<open>counter_and_status_bar\<close>, \<^verbatim>\<open>utils\<close>, \<^verbatim>\<open>requests\<close>, the file system) are
  parameters: every one of them may raise. \<open>local_download_dir\<close> and
  \<open>max_posts_download\<close> are the class attributes set by \<^verbatim>\<open>MediaDownloader.init\<close>.
  \<open>construct_local_filename\<close> takes the keyword arguments \<^verbatim>\<open>title\<close>,
  \<^verbatim>\<open>download_url\<close>, \<^verbatim>\<open>file_suffix\<close> and \<^verbatim>\<open>local_download_dir\<close>, an absent
  keyword being \<open>None\<close>. \<open>open_wb\<close> is \<^verbatim>\<open>open(path, 'wb')\<close>; \<open>file_write\<close> is
  \<^verbatim>\<open>f.write(chunk)\<close>, given the path, the bytes written so far and the chunk.
\<close>

record 'c env =
  local_download_dir :: string
  max_posts_download :: int
  get_counter_value :: "'c \<Rightarrow> exn + int"
  increment_counter :: "bool \<Rightarrow> 'c \<Rightarrow> exn + 'c"
  construct_local_filename ::
    "string option \<Rightarrow> string option \<Rightarrow> string option \<Rightarrow> string \<Rightarrow> exn + string"
  get_gfycat_redgif_url :: "string \<Rightarrow> string \<Rightarrow> exn + string option"
  check_if_empty_and_delete_file ::
    "string \<Rightarrow> (string \<rightharpoonup> string) \<Rightarrow> exn + (bool \<times> (string \<rightharpoonup> string))"
  requests_get :: "json \<Rightarrow> exn + response"
  open_wb :: "string \<Rightarrow> exn option"
  file_write :: "string \<Rightarrow> string \<Rightarrow> string \<Rightarrow> exn option"

section \<open>Control flow: return, raise, sequencing, try/except\<close>

type_synonym ('c, 'a) run = "'c world \<Rightarrow> (exn + 'a) \<times> 'c world"

definition returnM :: "'a \<Rightarrow> ('c, 'a) run" where
  "returnM x = (\<lambda>w. (Inr x, w))"

definition raiseM :: "exn \<Rightarrow> ('c, 'a) run" where
  "raiseM e = (\<lambda>w. (Inl e, w))"

definition bindM :: "('c, 'a) run \<Rightarrow> ('a \<Rightarrow> ('c, 'b) run) \<Rightarrow> ('c, 'b) run" where
  "bindM m f = (\<lambda>w. case m w of (Inl e, w') \<Rightarrow> (Inl e, w') | (Inr x, w') \<Rightarrow> f x w')"

definition try_except :: "('c, 'a) run \<Rightarrow> (exn \<Rightarrow> ('c, 'a) run) \<Rightarrow> ('c, 'a) run" where
  "try_except m h = (\<lambda>w. case m w of (Inl e, w') \<Rightarrow> h e w' | (Inr x, w') \<Rightarrow> (Inr x, w'))"

definition pure_call :: "exn + 'a \<Rightarrow> ('c, 'a) run" where
  "pure_call r = (\<lambda>w. (r, w))"

definition logging_error :: "string \<Rightarrow> exn \<Rightarrow> ('c, unit) run" where
  "logging_error msg e = (\<lambda>w. (Inr (), w\<lparr>log := log w @ [(msg, e)]\<rparr>))"

section \<open>Strings\<close>

definition startswith :: "string \<Rightarrow> string \<Rightarrow> bool" where
  "startswith s p = (take (length p) s = p)"

definition endswith :: "string \<Rightarrow> string \<Rightarrow> bool" where
  "endswith s p = startswith (rev s) (rev p)"

text \<open>\<^verbatim>\<open>sub in s\<close> on strings: \<open>sub\<close> occurs in \<open>s\<close> as a contiguous block.\<close>

fun contains :: "string \<Rightarrow> string \<Rightarrow> bool" where
  "contains [] sub = (sub = [])"
| "contains (c # cs) sub = (startswith (c # cs) sub \<or> contains cs sub)"

text \<open>
  \<^verbatim>\<open>s.replace(old, new)\<close>: every occurrence of \<open>old\<close>, found from the left and not
  overlapping, is replaced. For the empty \<open>old\<close> Python puts \<open>new\<close> before every
  character and at the end.
\<close>

function replace :: "string \<Rightarrow> string \<Rightarrow> string \<Rightarrow> string" where
  "replace [] old new = (if old = [] then new else [])"
| "replace (c # cs) old new =
     (if old = [] then new @ c # replace cs old new
      else if startswith (c # cs) old then new @ replace (drop (length old) (c # cs)) old new
      else c # replace cs old new)"
  by pat_completeness auto
termination
  by (relation "measure (\<lambda>(s, old, new). length s)") auto

section \<open>MediaDownloadHelper\<close>

text \<open>The attributes set by \<^verbatim>\<open>__init__\<close>.\<close>

record helper =
  self_local_download_dir :: string
  self_title :: "string option"
  self_media_url :: string
  self_post_details :: post_details
  self_domain :: string

text \<open>\<^verbatim>\<open>r.raise_for_status()\<close> raises for a status from 400 to 599.\<close>

definition raise_for_status :: "response \<Rightarrow> ('c, unit) run" where
  "raise_for_status r =
     (if 400 \<le> status_code r \<and> status_code r < 600 then raiseM (HTTPError (status_code r))
      else returnM ())"

text \<open>The loop \<^verbatim>\<open>for chunk in ...: if chunk: f.write(chunk)\<close> over the chunks received.\<close>

fun write_chunks :: "'c env \<Rightarrow> string \<Rightarrow> string list \<Rightarrow> ('c, unit) run" where
  "write_chunks E path [] w = (Inr (), w)"
| "write_chunks E path (chunk # rest) w =
     (if chunk = [] then write_chunks E path rest w
      else
        (let sofar = (case files w path of None \<Rightarrow> [] | Some b \<Rightarrow> b) in
         case file_write E path sofar chunk of
           Some e \<Rightarrow> (Inl e, w)
         | None \<Rightarrow> write_chunks E path rest (w\<lparr>files := (files w)(path \<mapsto> sofar @ chunk)\<rparr>)))"

definition do_requests_get :: "'c env \<Rightarrow> json \<Rightarrow> ('c, response) run" where
  "do_requests_get E download_url =
     (\<lambda>w. (requests_get E download_url, w\<lparr>requests := requests w @ [download_url]\<rparr>))"

definition do_open_wb :: "'c env \<Rightarrow> string \<Rightarrow> ('c, unit) run" where
  "do_open_wb E path =
     (\<lambda>w. case open_wb E path of
        Some e \<Rightarrow> (Inl e, w)
      | None \<Rightarrow> (Inr (), w\<lparr>files := (files w)(path \<mapsto> [])\<rparr>))"

text \<open>\<^verbatim>\<open>_core_download\<close> (an Isabelle name cannot start with an underscore).\<close>

definition core_download :: "'c env \<Rightarrow> json \<Rightarrow> string \<Rightarrow> ('c, unit) run" where
  "core_download E download_url local_filename =
     try_except
       (\<lambda>w. if files w local_filename \<noteq> None then (Inr (), w)
            else
              bindM (do_requests_get E download_url) (\<lambda>r.
              bindM (raise_for_status r) (\<lambda>_.
              bindM (do_open_wb E local_filename) (\<lambda>_.
              bindM (write_chunks E local_filename (chunks r)) (\<lambda>_.
              (case broken r of Some e \<Rightarrow> raiseM e | None \<Rightarrow> returnM ()))))) w)
       (\<lambda>e. logging_error ''Error in core download'' e)"

text \<open>\<^verbatim>\<open>_download_to_local_file\<close>: the file name is built outside the \<^verbatim>\<open>try\<close>.\<close>

definition download_to_local_file :: "'c env \<Rightarrow> helper \<Rightarrow> string \<Rightarrow> ('c, string option) run" where
  "download_to_local_file E self download_url =
     bindM (pure_call (construct_local_filename E (self_title self) (Some download_url) None
                         (self_local_download_dir self))) (\<lambda>local_filename.
     try_except
       (bindM (core_download E (JStr download_url) local_filename) (\<lambda>_.
        returnM (Some local_filename)))
       (\<lambda>e. bindM (logging_error ''Error in core download'' e) (\<lambda>_. returnM None)))"

definition do_nothing :: "'c env \<Rightarrow> helper \<Rightarrow> ('c, string option) run" where
  "do_nothing E self = returnM None"

definition do_lookup :: "'c env \<Rightarrow> string \<Rightarrow> string \<Rightarrow> ('c, string option) run" where
  "do_lookup E media_url domain_type =
     (\<lambda>w. (get_gfycat_redgif_url E media_url domain_type,
           w\<lparr>lookups := lookups w @ [(media_url, domain_type)]\<rparr>))"

definition gfycat :: "'c env \<Rightarrow> helper \<Rightarrow> ('c, string option) run" where
  "gfycat E self =
     try_except
       (bindM (do_lookup E (self_media_url self) ''gfycat'') (\<lambda>gfycat_url.
        case gfycat_url of
          None \<Rightarrow> returnM None
        | Some u \<Rightarrow> download_to_local_file E self u))
       (\<lambda>e. bindM (logging_error ''Error downloading from gfycat'' e) (\<lambda>_. returnM None))"

text \<open>
  \<^verbatim>\<open>imgur\<close> assigns the rewritten URL to \<^verbatim>\<open>self._media_url\<close>; no method reads the
  attribute after the handler has returned, so the model passes the new value on
  without returning the object.
\<close>

definition imgur :: "'c env \<Rightarrow> helper \<Rightarrow> ('c, string option) run" where
  "imgur E self =
     try_except
       (let media_url =
              (if contains (self_media_url self) ''gifv''
               then replace (self_media_url self) ''.gifv'' ''.mp4''
               else self_media_url self)
        in download_to_local_file E (self\<lparr>self_media_url := media_url\<rparr>) media_url)
       (\<lambda>e. bindM (logging_error ''Error downloading from imgur'' e) (\<lambda>_. returnM None))"

definition ireddit :: "'c env \<Rightarrow> helper \<Rightarrow> ('c, string option) run" where
  "ireddit E self =
     try_except
       (download_to_local_file E self (self_media_url self))
       (\<lambda>e. bindM (logging_error ''Error downloading from i.redd.it'' e) (\<lambda>_. returnM None))"

definition redgifs :: "'c env \<Rightarrow> helper \<Rightarrow> ('c, string option) run" where
  "redgifs E self =
     try_except
       (bindM (do_lookup E (self_media_url self) ''redgif'') (\<lambda>redgif_url.
        case redgif_url of
          None \<Rightarrow> returnM None
        | Some u \<Rightarrow> download_to_local_file E self u))
       (\<lambda>e. bindM (logging_error ''Error downloading from redgifs'' e) (\<lambda>_. returnM None))"

text \<open>\<^verbatim>\<open>self._post_details['preview']['images'][0]['source']['url']\<close>\<close>

definition preview_url_of :: "json \<Rightarrow> exn + json" where
  "preview_url_of p =
     (case getitem_key p ''images'' of Inl e \<Rightarrow> Inl e | Inr images \<Rightarrow>
      case getitem_0 images of Inl e \<Rightarrow> Inl e | Inr first_image \<Rightarrow>
      case getitem_key first_image ''source'' of Inl e \<Rightarrow> Inl e | Inr source \<Rightarrow>
      getitem_key source ''url'')"

text \<open>\<^verbatim>\<open>_attempt_naive_preview_download\<close>\<close>

definition attempt_naive_preview_download :: "'c env \<Rightarrow> helper \<Rightarrow> ('c, string option) run" where
  "attempt_naive_preview_download E self =
     try_except
       (case preview (self_post_details self) of
          None \<Rightarrow> returnM None
        | Some p \<Rightarrow>
            bindM (pure_call (preview_url_of p)) (\<lambda>preview_url.
            bindM (pure_call (construct_local_filename E (self_title self) None (Some ''.jpg'')
                                (self_local_download_dir self))) (\<lambda>local_filename.
            bindM (core_download E preview_url local_filename) (\<lambda>_.
            returnM (Some local_filename)))))
       (\<lambda>e. bindM (logging_error ''Error downloading naive preview'' e) (\<lambda>_. returnM None))"

text \<open>\<^verbatim>\<open>domain_mappings.get(self._domain, self.do_nothing)()\<close>\<close>

definition domain_mappings :: "'c env \<Rightarrow> helper \<Rightarrow> ('c, string option) run" where
  "domain_mappings E self =
     (if self_domain self = ''gfycat.com'' then gfycat E self
      else if self_domain self = ''i.imgur.com'' then imgur E self
      else if self_domain self = ''i.redd.it'' then ireddit E self
      else if self_domain self = ''redgifs.com'' then redgifs E self
      else do_nothing E self)"

text \<open>\<^verbatim>\<open>check_if_empty_and_delete_file(file_path=...)\<close> run on the files of the world.\<close>

definition do_check :: "'c env \<Rightarrow> string \<Rightarrow> ('c, bool) run" where
  "do_check E file_path =
     (\<lambda>w. case check_if_empty_and_delete_file E file_path (files w) of
        Inl e \<Rightarrow> (Inl e, w)
      | Inr (is_empty, fs) \<Rightarrow> (Inr is_empty, w\<lparr>files := fs\<rparr>))"

text \<open>
  \<^verbatim>\<open>download\<close>. In the last assignment \<^verbatim>\<open>or\<close> does not evaluate
  \<^verbatim>\<open>naive_download_successful\<close> (unbound on that path) when the primary download
  succeeded.
\<close>

definition download :: "'c env \<Rightarrow> helper \<Rightarrow> ('c, bool) run" where
  "download E self =
     try_except
       (bindM (domain_mappings E self) (\<lambda>local_filename.
        bindM (case local_filename of
                 None \<Rightarrow> returnM False
               | Some f \<Rightarrow> bindM (do_check E f) (\<lambda>is_empty. returnM (\<not> is_empty)))
          (\<lambda>download_successful.
        if download_successful then returnM True
        else
          bindM (attempt_naive_preview_download E self) (\<lambda>naive_local_filename.
          bindM (case naive_local_filename of
                   None \<Rightarrow> returnM False
                 | Some f \<Rightarrow> bindM (do_check E f) (\<lambda>naive_is_empty. returnM (\<not> naive_is_empty)))
            (\<lambda>naive_download_successful.
          returnM (download_successful \<or> naive_download_successful))))))
       (\<lambda>e. bindM (logging_error ''Error downloading media'' e) (\<lambda>_. returnM False))"

section \<open>MediaDownloader\<close>

text \<open>What \<^verbatim>\<open>download_post\<close> returns: \<^verbatim>\<open>None\<close> or \<^verbatim>\<open>False\<close>.\<close>

datatype retval = RNone | RFalse

definition do_get_counter_value :: "'c env \<Rightarrow> ('c, int) run" where
  "do_get_counter_value E = (\<lambda>w. (get_counter_value E (global_counter w), w))"

definition do_increment_counter :: "'c env \<Rightarrow> bool \<Rightarrow> ('c, unit) run" where
  "do_increment_counter E download_successful =
     (\<lambda>w. case increment_counter E download_successful (global_counter w) of
        Inl e \<Rightarrow> (Inl e, w\<lparr>attempts := attempts w @ [download_successful]\<rparr>)
      | Inr c \<Rightarrow> (Inr (), w\<lparr>global_counter := c,
                             attempts := attempts w @ [download_successful]\<rparr>))"

definition download_post :: "'c env \<Rightarrow> post_details \<Rightarrow> ('c, retval) run" where
  "download_post E post =
     try_except
       (bindM (do_get_counter_value E) (\<lambda>v.
        if v \<ge> max_posts_download E then returnM RNone
        else
          (case (domain post, url post) of
             (Some d, Some media_url) \<Rightarrow>
               bindM (download E \<lparr>self_local_download_dir = local_download_dir E,
                                   self_title = title post,
                                   self_media_url = media_url,
                                   self_post_details = post,
                                   self_domain = d\<rparr>) (\<lambda>download_successful.
               bindM (do_increment_counter E download_successful) (\<lambda>_.
               returnM RNone))
           | _ \<Rightarrow> returnM RFalse)))
       (\<lambda>e. bindM (logging_error ''Error downloading post'' e) (\<lambda>_. returnM RNone))"

text \<open>
  The two places where \<^verbatim>\<open>download\<close> turns the file name a handler returned into a
  success flag (lines 100 to 105 and 110 to 114): no name is a failure, a name is checked
  with \<^verbatim>\<open>check_if_empty_and_delete_file\<close>.
\<close>

definition validated :: "'c env \<Rightarrow> string option \<Rightarrow> ('c, bool) run" where
  "validated E local_filename =
     (case local_filename of
        None \<Rightarrow> returnM False
      | Some f \<Rightarrow> bindM (do_check E f) (\<lambda>is_empty. returnM (\<not> is_empty)))"

section \<open>A concrete environment\<close>

text \<open>
  Modelled from the spec: \<^verbatim>\<open>check_if_empty_and_delete_file\<close> of \<^verbatim>\<open>utils\<close>, the
  spec's ResultValidator. A path that does not exist is invalid; a path that exists with
  zero bytes is invalid and the file is deleted; a path that exists with nonzero bytes is
  valid. The function returns whether the file is empty (invalid).
\<close>

definition spec_check_if_empty_and_delete_file ::
  "string \<Rightarrow> (string \<rightharpoonup> string) \<Rightarrow> exn + (bool \<times> (string \<rightharpoonup> string))" where
  "spec_check_if_empty_and_delete_file file_path fs =
     (case fs file_path of
        None \<Rightarrow> Inr (True, fs)
      | Some b \<Rightarrow> if b = [] then Inr (True, fs(file_path := None)) else Inr (False, fs))"

definition basename :: "string \<Rightarrow> string" where
  "basename u = rev (takeWhile (\<lambda>c. c \<noteq> CHR ''/'') (rev u))"

text \<open>
  Modelled from the spec: \<^verbatim>\<open>construct_local_filename\<close> of \<^verbatim>\<open>utils\<close>, the spec's
  \<^verbatim>\<open>buildPath(title, url-or-suffix, directory)\<close>, a deterministic function; the spec's
  scenario maps the title \<^verbatim>\<open>cat\<close> and the URL \<^verbatim>\<open>https://i.redd.it/x.jpg\<close> to
  \<^verbatim>\<open>.../cat_x.jpg\<close>.
\<close>

definition spec_construct_local_filename ::
  "string option \<Rightarrow> string option \<Rightarrow> string option \<Rightarrow> string \<Rightarrow> exn + string" where
  "spec_construct_local_filename t download_url file_suffix dir =
     (let name = (case t of None \<Rightarrow> [] | Some s \<Rightarrow> s) in
      case download_url of
        Some u \<Rightarrow> Inr (dir @ ''/'' @ name @ ''_'' @ basename u)
      | None \<Rightarrow>
          (case file_suffix of
             Some s \<Rightarrow> Inr (dir @ ''/'' @ name @ s)
           | None \<Rightarrow> Inl TypeError))"

text \<open>
  Modelled from the spec: the counter, \<^verbatim>\<open>getCount\<close> and \<^verbatim>\<open>recordAttempt\<close>, which
  increments the success count iff the attempt succeeded.
\<close>

definition spec_get_counter_value :: "int \<Rightarrow> exn + int" where
  "spec_get_counter_value c = Inr c"

definition spec_increment_counter :: "bool \<Rightarrow> int \<Rightarrow> exn + int" where
  "spec_increment_counter download_successful c = Inr (if download_successful then c + 1 else c)"

text \<open>A small network: three URLs that answer, one that is gone, nothing else reachable.\<close>

definition example_requests_get :: "json \<Rightarrow> exn + response" where
  "example_requests_get u =
     (if u = JStr ''http://i.redd.it/x.jpg''
        then Inr \<lparr>status_code = 200, chunks = [''JF'', ''IF''], broken = None\<rparr>
      else if u = JStr ''http://i.redd.it/gone.jpg''
        then Inr \<lparr>status_code = 404, chunks = [], broken = None\<rparr>
      else if u = JStr ''http://i.redd.it/cut.jpg''
        then Inr \<lparr>status_code = 200, chunks = [''JF''], broken = Some (External ''ChunkedEncodingError'')\<rparr>
      else if u = JStr ''http://p.it/p.jpg''
        then Inr \<lparr>status_code = 200, chunks = [''PNG''], broken = None\<rparr>
      else Inl (External ''ConnectionError''))"

definition example_env :: "int env" where
  "example_env =
     \<lparr>local_download_dir = ''dl'',
      max_posts_download = 2,
      get_counter_value = spec_get_counter_value,
      increment_counter = spec_increment_counter,
      construct_local_filename = spec_construct_local_filename,
      get_gfycat_redgif_url = (\<lambda>media_url domain_type. Inl (External ''ConnectionError'')),
      check_if_empty_and_delete_file = spec_check_if_empty_and_delete_file,
      requests_get = example_requests_get,
      open_wb = (\<lambda>path. None),
      file_write = (\<lambda>path sofar chunk. None)\<rparr>"

definition example_world :: "int world" where
  "example_world =
     \<lparr>global_counter = 0, files = Map.empty, attempts = [], requests = [],
      lookups = [], log = []\<rparr>"

definition example_preview :: json where
  "example_preview =
     JDict [(''images'', JList [JDict [(''source'', JDict [(''url'', JStr ''http://p.it/p.jpg'')])]])]"

definition example_post :: "string \<Rightarrow> string \<Rightarrow> json option \<Rightarrow> post_details" where
  "example_post d u p = \<lparr>domain = Some d, url = Some u, title = Some ''cat'', preview = p\<rparr>"

text \<open>The helper object \<^verbatim>\<open>download_post\<close> builds for an example post.\<close>

definition example_helper :: "string \<Rightarrow> string \<Rightarrow> json option \<Rightarrow> helper" where
  "example_helper d u p =
     \<lparr>self_local_download_dir = ''dl'', self_title = Some ''cat'', self_media_url = u,
      self_post_details = example_post d u p, self_domain = d\<rparr>"

text \<open>Two faulty environments: a file system on which the emptiness check raises, and a
  counter whose \<^verbatim>\<open>increment_counter\<close> raises.\<close>

definition failing_disk_env :: "int env" where
  "failing_disk_env =
     example_env\<lparr>check_if_empty_and_delete_file :=
                   (\<lambda>file_path fs. Inl (External ''PermissionError''))\<rparr>"


section \<open>Workers sharing the counter\<close>

text \<open>
  Modelled from the spec: the worker pool of section 5. The orchestrator is invoked once
  per post by any number of concurrent workers, each invocation sequential in itself; the
  counter is read (step 1) and incremented (step 5) in two separate operations, and no
  lock is held in between. A worker is idle, or has passed the quota check for a post, or
  has finished the download of its post and holds the flag to report.
\<close>

datatype worker = Idle | Passed post_details | Fetched bool

text \<open>
  The three parts of \<^verbatim>\<open>download_post\<close> a worker goes through, each on the shared world:
  the quota check (lines 42 to 45), the download (lines 47 to 58) and the call of
  \<^verbatim>\<open>increment_counter\<close> (line 61). An exception in any of them reaches the handler of
  \<^verbatim>\<open>download_post\<close> (lines 63 and 64), which ends the invocation.
\<close>

definition quota_check :: "'c env \<Rightarrow> post_details \<Rightarrow> 'c world \<Rightarrow> 'c world \<times> worker" where
  "quota_check E post w =
     (case do_get_counter_value E w of
        (Inl e, w') \<Rightarrow> (snd (logging_error ''Error downloading post'' e w'), Idle)
      | (Inr v, w') \<Rightarrow> (w', if v \<ge> max_posts_download E then Idle else Passed post))"

definition fetch_media :: "'c env \<Rightarrow> post_details \<Rightarrow> 'c world \<Rightarrow> 'c world \<times> worker" where
  "fetch_media E post w =
     (case (domain post, url post) of
        (Some d, Some media_url) \<Rightarrow>
          (case download E \<lparr>self_local_download_dir = local_download_dir E,
                            self_title = title post,
                            self_media_url = media_url,
                            self_post_details = post,
                            self_domain = d\<rparr> w of
             (Inl e, w') \<Rightarrow> (snd (logging_error ''Error downloading post'' e w'), Idle)
           | (Inr download_successful, w') \<Rightarrow> (w', Fetched download_successful))
      | _ \<Rightarrow> (w, Idle))"

definition record_attempt :: "'c env \<Rightarrow> bool \<Rightarrow> 'c world \<Rightarrow> 'c world" where
  "record_attempt E download_successful w =
     (case do_increment_counter E download_successful w of
        (Inl e, w') \<Rightarrow> snd (logging_error ''Error downloading post'' e w')
      | (Inr u, w') \<Rightarrow> w')"

text \<open>
  A schedule is a list of events: worker \<open>i\<close> takes a post and reads the counter, worker
  \<open>i\<close> downloads, worker \<open>i\<close> records. An event that does not fit the state of its worker
  changes nothing.
\<close>

datatype event = Check nat post_details | Fetch nat | Record nat

fun pool_step :: "'c env \<Rightarrow> event \<Rightarrow> 'c world \<times> worker list \<Rightarrow> 'c world \<times> worker list" where
  "pool_step E (Check i post) (w, ws) =
     (if i < length ws \<and> ws ! i = Idle
      then (case quota_check E post w of (w', s) \<Rightarrow> (w', ws[i := s]))
      else (w, ws))"
| "pool_step E (Fetch i) (w, ws) =
     (if i < length ws
      then (case ws ! i of
              Passed post \<Rightarrow> (case fetch_media E post w of (w', s) \<Rightarrow> (w', ws[i := s]))
            | Idle \<Rightarrow> (w, ws)
            | Fetched b \<Rightarrow> (w, ws))
      else (w, ws))"
| "pool_step E (Record i) (w, ws) =
     (if i < length ws
      then (case ws ! i of
              Fetched b \<Rightarrow> (record_attempt E b w, ws[i := Idle])
            | Idle \<Rightarrow> (w, ws)
            | Passed post \<Rightarrow> (w, ws))
      else (w, ws))"

fun run_pool :: "'c env \<Rightarrow> event list \<Rightarrow> 'c world \<times> worker list \<Rightarrow> 'c world \<times> worker list" where
  "run_pool E [] s = s"
| "run_pool E (ev # evs) s = run_pool E evs (pool_step E ev s)"

text \<open>The number of workers that have passed the quota check and not yet finished.\<close>

definition in_flight :: "worker list \<Rightarrow> nat" where
  "in_flight ws = length (filter (\<lambda>s. s \<noteq> Idle) ws)"

section \<open>Fields a method leaves alone\<close>

text \<open>\<open>keeps g m\<close>: running \<open>m\<close> never changes what \<open>g\<close> reads from the world.\<close>

definition keeps :: "('c world \<Rightarrow> 'x) \<Rightarrow> ('c, 'a) run \<Rightarrow> bool" where
  "keeps g m = (\<forall>w. g (snd (m w)) = g w)"

section \<open>Basic facts\<close>

lemmas monad_defs = bindM_def try_except_def returnM_def raiseM_def pure_call_def logging_error_def

lemma keepsD: "keeps g m \<Longrightarrow> m w = (r, w') \<Longrightarrow> g w' = g w"
  by (auto simp: keeps_def dest: spec[of _ w])

lemma keeps_returnM: "keeps g (returnM x)"
  by (simp add: keeps_def returnM_def)

lemma keeps_raiseM: "keeps g (raiseM e)"
  by (simp add: keeps_def raiseM_def)

lemma keeps_pure_call: "keeps g (pure_call r)"
  by (simp add: keeps_def pure_call_def)

lemma keeps_bindM:
  assumes "keeps g m" and "\<And>x. keeps g (f x)"
  shows "keeps g (bindM m f)"
  unfolding keeps_def
proof
  fix w
  obtain r w' where mw: "m w = (r, w')" by (cases "m w")
  have g': "g w' = g w" using assms(1) mw by (rule keepsD)
  show "g (snd (bindM m f w)) = g w"
  proof (cases r)
    case (Inl e)
    with mw g' show ?thesis by (simp add: bindM_def)
  next
    case (Inr x)
    obtain r2 w2 where fw: "f x w' = (r2, w2)" by (cases "f x w'")
    have "g w2 = g w'" using assms(2) fw by (rule keepsD)
    with Inr mw g' fw show ?thesis by (simp add: bindM_def)
  qed
qed

lemma keeps_try_except:
  assumes "keeps g m" and "\<And>e. keeps g (h e)"
  shows "keeps g (try_except m h)"
  unfolding keeps_def
proof
  fix w
  obtain r w' where mw: "m w = (r, w')" by (cases "m w")
  have g': "g w' = g w" using assms(1) mw by (rule keepsD)
  show "g (snd (try_except m h w)) = g w"
  proof (cases r)
    case (Inr x)
    with mw g' show ?thesis by (simp add: try_except_def)
  next
    case (Inl e)
    obtain r2 w2 where hw: "h e w' = (r2, w2)" by (cases "h e w'")
    have "g w2 = g w'" using assms(2) hw by (rule keepsD)
    with Inl mw g' hw show ?thesis by (simp add: try_except_def)
  qed
qed

lemma keeps_logging_error:
  assumes "\<And>w l. g (w\<lparr>log := l\<rparr>) = g w"
  shows "keeps g (logging_error msg e)"
  using assms by (simp add: keeps_def logging_error_def)

lemma keeps_handler:
  assumes "\<And>w l. g (w\<lparr>log := l\<rparr>) = g w"
  shows "keeps g (bindM (logging_error msg e) (\<lambda>_. returnM v))"
  by (intro keeps_bindM keeps_logging_error keeps_returnM assms)

lemma keeps_option_case:
  assumes "keeps g a" and "\<And>y. keeps g (b y)"
  shows "keeps g (case x of None \<Rightarrow> a | Some y \<Rightarrow> b y)"
  using assms by (cases x) simp_all

lemma keeps_if:
  assumes "keeps g a" and "keeps g b"
  shows "keeps g (if c then a else b)"
  using assms by simp

lemma write_chunks_keeps:
  assumes "\<And>w f. g (w\<lparr>files := f\<rparr>) = g w"
  shows "g (snd (write_chunks E path cs w)) = g w"
proof (induction cs arbitrary: w)
  case Nil
  show ?case by simp
next
  case (Cons chunk rest)
  show ?case
    by (cases "file_write E path (case files w path of None \<Rightarrow> [] | Some b \<Rightarrow> b) chunk")
       (simp_all add: Cons.IH assms Let_def)
qed

lemma keeps_write_chunks:
  assumes "\<And>w f. g (w\<lparr>files := f\<rparr>) = g w"
  shows "keeps g (write_chunks E path cs)"
  using write_chunks_keeps[of g, OF assms] by (simp add: keeps_def)

lemma keeps_raise_for_status: "keeps g (raise_for_status r)"
  by (simp add: raise_for_status_def keeps_raiseM keeps_returnM)

lemma keeps_do_open_wb:
  assumes "\<And>w f. g (w\<lparr>files := f\<rparr>) = g w"
  shows "keeps g (do_open_wb E path)"
  using assms by (simp add: keeps_def do_open_wb_def split: option.splits)

lemma keeps_do_requests_get:
  assumes "\<And>w f. g (w\<lparr>requests := f\<rparr>) = g w"
  shows "keeps g (do_requests_get E u)"
  using assms by (simp add: keeps_def do_requests_get_def)

lemma keeps_do_lookup:
  assumes "\<And>w f. g (w\<lparr>lookups := f\<rparr>) = g w"
  shows "keeps g (do_lookup E u t)"
  using assms by (simp add: keeps_def do_lookup_def)

lemma keeps_do_check:
  assumes "\<And>w f. g (w\<lparr>files := f\<rparr>) = g w"
  shows "keeps g (do_check E path)"
  using assms by (simp add: keeps_def do_check_def split: sum.splits prod.splits)

text \<open>The transfer after the existence test, while the file is being written.\<close>

lemma keeps_transfer:
  assumes "\<And>w f. g (w\<lparr>files := f\<rparr>) = g w"
  shows "keeps g (bindM (raise_for_status r) (\<lambda>_.
              bindM (do_open_wb E local_filename) (\<lambda>_.
              bindM (write_chunks E local_filename (chunks r)) (\<lambda>_.
              (case broken r of Some e \<Rightarrow> raiseM e | None \<Rightarrow> returnM ())))))"
  by (intro keeps_bindM keeps_raise_for_status keeps_do_open_wb keeps_write_chunks
        keeps_option_case keeps_raiseM keeps_returnM assms)

lemma keeps_core_download:
  assumes f: "\<And>w f. g (w\<lparr>files := f\<rparr>) = g w"
    and r: "\<And>w f. g (w\<lparr>requests := f\<rparr>) = g w"
    and l: "\<And>w f. g (w\<lparr>log := f\<rparr>) = g w"
  shows "keeps g (core_download E download_url local_filename)"
proof -
  let ?body = "bindM (do_requests_get E download_url) (\<lambda>r.
              bindM (raise_for_status r) (\<lambda>_.
              bindM (do_open_wb E local_filename) (\<lambda>_.
              bindM (write_chunks E local_filename (chunks r)) (\<lambda>_.
              (case broken r of Some e \<Rightarrow> raiseM e | None \<Rightarrow> returnM ())))))"
  have body: "keeps g ?body"
    by (intro keeps_bindM keeps_do_requests_get keeps_transfer f r)
  have "keeps g (\<lambda>w. if files w local_filename \<noteq> None then (Inr (), w) else ?body w)"
    using body by (simp add: keeps_def)
  then show ?thesis
    unfolding core_download_def
    by (intro keeps_try_except keeps_logging_error l)
qed

lemma keeps_download_to_local_file:
  assumes f: "\<And>w f. g (w\<lparr>files := f\<rparr>) = g w"
    and r: "\<And>w f. g (w\<lparr>requests := f\<rparr>) = g w"
    and l: "\<And>w f. g (w\<lparr>log := f\<rparr>) = g w"
  shows "keeps g (download_to_local_file E self u)"
  unfolding download_to_local_file_def
  by (intro keeps_bindM keeps_pure_call keeps_try_except keeps_core_download keeps_returnM
        keeps_logging_error f r l)

lemma keeps_domain_mappings:
  assumes f: "\<And>w f. g (w\<lparr>files := f\<rparr>) = g w"
    and r: "\<And>w f. g (w\<lparr>requests := f\<rparr>) = g w"
    and l: "\<And>w f. g (w\<lparr>log := f\<rparr>) = g w"
    and k: "\<And>w f. g (w\<lparr>lookups := f\<rparr>) = g w"
  shows "keeps g (domain_mappings E self)"
  unfolding domain_mappings_def gfycat_def imgur_def ireddit_def redgifs_def do_nothing_def Let_def
  by (intro keeps_if keeps_bindM keeps_try_except keeps_download_to_local_file keeps_returnM
        keeps_logging_error keeps_do_lookup keeps_option_case f r l k)

lemma keeps_attempt_naive_preview_download:
  assumes f: "\<And>w f. g (w\<lparr>files := f\<rparr>) = g w"
    and r: "\<And>w f. g (w\<lparr>requests := f\<rparr>) = g w"
    and l: "\<And>w f. g (w\<lparr>log := f\<rparr>) = g w"
  shows "keeps g (attempt_naive_preview_download E self)"
  unfolding attempt_naive_preview_download_def
  by (intro keeps_bindM keeps_try_except keeps_core_download keeps_returnM keeps_pure_call
        keeps_logging_error keeps_option_case f r l)

lemma keeps_validated:
  assumes "\<And>w f. g (w\<lparr>files := f\<rparr>) = g w"
  shows "keeps g (validated E local_filename)"
  unfolding validated_def
  by (intro keeps_option_case keeps_returnM keeps_bindM keeps_do_check assms)

lemma keeps_download:
  assumes f: "\<And>w f. g (w\<lparr>files := f\<rparr>) = g w"
    and r: "\<And>w f. g (w\<lparr>requests := f\<rparr>) = g w"
    and l: "\<And>w f. g (w\<lparr>log := f\<rparr>) = g w"
    and k: "\<And>w f. g (w\<lparr>lookups := f\<rparr>) = g w"
  shows "keeps g (download E self)"
  unfolding download_def
  by (intro keeps_if keeps_bindM keeps_try_except keeps_domain_mappings keeps_returnM
        keeps_attempt_naive_preview_download keeps_do_check
        keeps_logging_error keeps_option_case f r l k)

lemma download_keeps_attempts: "keeps attempts (download E self)"
  by (rule keeps_download) simp_all

lemmas example_defs = example_env_def example_world_def example_preview_def example_post_def
  example_helper_def
  spec_check_if_empty_and_delete_file_def spec_construct_local_filename_def basename_def
  spec_get_counter_value_def spec_increment_counter_def example_requests_get_def

lemmas method_defs = download_post_def download_def domain_mappings_def gfycat_def imgur_def
  ireddit_def redgifs_def do_nothing_def attempt_naive_preview_download_def
  download_to_local_file_def core_download_def do_requests_get_def do_open_wb_def do_lookup_def
  do_check_def do_get_counter_value_def do_increment_counter_def raise_for_status_def
  preview_url_of_def validated_def startswith_def Let_def

lemma handler_apply:
  "bindM (logging_error msg e) (\<lambda>_. returnM v) w = (Inr v, w\<lparr>log := log w @ [(msg, e)]\<rparr>)"
  by (simp add: monad_defs)

lemma try_except_never_raises:
  assumes "\<And>e w'. \<not> isl (fst (h e w'))"
  shows "\<not> isl (fst (try_except m h w))"
proof (cases "m w")
  case (Pair r w')
  show ?thesis
  proof (cases r)
    case (Inl e)
    with Pair have "try_except m h w = h e w'" by (simp add: try_except_def)
    then show ?thesis using assms by simp
  next
    case (Inr x)
    with Pair show ?thesis by (simp add: try_except_def)
  qed
qed

lemma download_never_raises: "\<not> isl (fst (download E self w))"
  unfolding download_def by (rule try_except_never_raises) (simp add: handler_apply)

lemma download_returns: "\<exists>b w'. download E self w = (Inr b, w')"
proof -
  obtain r w' where d: "download E self w = (r, w')" by (cases "download E self w")
  with download_never_raises[of E self w] obtain b where "r = Inr b" by (cases r) auto
  with d show ?thesis by blast
qed

section \<open>The quota check\<close>

text \<open>
  Claim C1. When the counter already reads a value at or above the configured maximum,
  \<^verbatim>\<open>download_post\<close> returns at once: the world is left exactly as it was (no file, no
  request, no lookup, no log line, no \<^verbatim>\<open>increment_counter\<close> call), whatever the post
  and whatever the collaborators would have done.
\<close>

theorem quota_reached_skips:
  assumes "get_counter_value E (global_counter w) = Inr v"
    and "max_posts_download E \<le> v"
  shows "download_post E post w = (Inr RNone, w)"
  using assms by (simp add: download_post_def do_get_counter_value_def monad_defs)

theorem quota_reached_skips_witness:
  "download_post example_env (example_post ''i.redd.it'' ''http://i.redd.it/x.jpg'' None)
     (example_world\<lparr>global_counter := 2\<rparr>)
   = (Inr RNone, example_world\<lparr>global_counter := 2\<rparr>)"
  using quota_reached_skips[of example_env "example_world\<lparr>global_counter := 2\<rparr>" 2
      "example_post ''i.redd.it'' ''http://i.redd.it/x.jpg'' None"]
  by (simp add: example_env_def example_world_def spec_get_counter_value_def)

section \<open>Posts without a domain or a URL\<close>

text \<open>
  Claim C4. For a post whose \<^verbatim>\<open>domain\<close> or \<^verbatim>\<open>url\<close> is absent, \<^verbatim>\<open>download_post\<close>
  never calls \<^verbatim>\<open>increment_counter\<close>, writes no file and makes no request; when the
  quota is not yet reached it returns \<^verbatim>\<open>False\<close> and leaves the world unchanged.
\<close>

theorem missing_field_is_dropped:
  assumes "domain post = None \<or> url post = None"
  shows "attempts (snd (download_post E post w)) = attempts w
       \<and> files (snd (download_post E post w)) = files w
       \<and> requests (snd (download_post E post w)) = requests w
       \<and> (get_counter_value E (global_counter w) = Inr v \<and> v < max_posts_download E
            \<longrightarrow> download_post E post w = (Inr RFalse, w))"
  using assms
  by (cases "get_counter_value E (global_counter w)")
     (auto simp add: download_post_def do_get_counter_value_def monad_defs split: option.splits)

theorem missing_field_is_dropped_witness:
  "download_post example_env \<lparr>domain = Some ''i.redd.it'', url = None, title = Some ''cat'', preview = None\<rparr>
     example_world
   = (Inr RFalse, example_world)"
  using missing_field_is_dropped[of "\<lparr>domain = Some ''i.redd.it'', url = None, title = Some ''cat'', preview = None\<rparr>"
      example_env example_world 0]
  by (simp add: example_env_def example_world_def spec_get_counter_value_def)

section \<open>The return value\<close>

text \<open>
  Claim C10. \<^verbatim>\<open>download_post\<close> returns \<^verbatim>\<open>None\<close> on every path but one: it returns
  \<^verbatim>\<open>False\<close> exactly when the quota check passes and the post lacks its domain or its
  URL. For a well-formed post the value is \<^verbatim>\<open>None\<close> whether the download succeeded,
  failed or raised.
\<close>

theorem return_value_only_tells_missing_fields:
  "fst (download_post E post w) =
     Inr (if (\<exists>v. get_counter_value E (global_counter w) = Inr v \<and> v < max_posts_download E)
             \<and> (domain post = None \<or> url post = None)
          then RFalse else RNone)"
proof (cases "get_counter_value E (global_counter w)")
  case (Inl e)
  then show ?thesis
    by (simp add: download_post_def do_get_counter_value_def monad_defs)
next
  case (Inr v)
  show ?thesis
  proof (cases "max_posts_download E \<le> v")
    case True
    with Inr show ?thesis
      by (simp add: download_post_def do_get_counter_value_def monad_defs)
  next
    case False
    show ?thesis
    proof (cases "domain post = None \<or> url post = None")
      case True
      with Inr False show ?thesis
        by (auto simp add: download_post_def do_get_counter_value_def monad_defs split: option.splits)
    next
      case wf: False
      then obtain d u where du: "domain post = Some d" "url post = Some u" by auto
      let ?self = "\<lparr>self_local_download_dir = local_download_dir E, self_title = title post,
                     self_media_url = u, self_post_details = post, self_domain = d\<rparr>"
      obtain b w1 where dl: "download E ?self w = (Inr b, w1)"
        using download_returns by blast
      show ?thesis
        using Inr False du dl
        by (cases "increment_counter E b (global_counter w1)")
           (simp_all add: download_post_def do_get_counter_value_def do_increment_counter_def monad_defs)
    qed
  qed
qed

theorem return_value_witness:
  "fst (download_post example_env (example_post ''i.redd.it'' ''http://i.redd.it/x.jpg'' None) example_world)
     = Inr RNone
   \<and> fst (download_post example_env (example_post ''unknown.com'' ''http://unknown.com/a'' None) example_world)
     = Inr RNone"
  using return_value_only_tells_missing_fields[of example_env
      "example_post ''i.redd.it'' ''http://i.redd.it/x.jpg'' None" example_world]
    return_value_only_tells_missing_fields[of example_env
      "example_post ''unknown.com'' ''http://unknown.com/a'' None" example_world]
  by (simp add: example_post_def)

section \<open>Hosts that are not recognised\<close>

lemma unrecognized_download:
  assumes "self_domain self \<notin> {''gfycat.com'', ''i.imgur.com'', ''i.redd.it'', ''redgifs.com''}"
    and "preview (self_post_details self) = None"
  shows "download E self w = (Inr False, w)"
  using assms
  by (simp add: download_def domain_mappings_def do_nothing_def attempt_naive_preview_download_def monad_defs)

text \<open>
  Claim C6. For a domain outside the four keys of \<^verbatim>\<open>domain_mappings\<close> the dispatch
  returns \<^verbatim>\<open>None\<close> without raising and without touching the world. If the post has
  no \<^verbatim>\<open>preview\<close> key either, \<^verbatim>\<open>download_post\<close> creates no file, makes no request,
  never reports a success, and reports the failure to the counter whenever the quota
  check passes and the URL is present.
\<close>

theorem unrecognized_host_fails:
  assumes "domain post = Some d"
    and "d \<notin> {''gfycat.com'', ''i.imgur.com'', ''i.redd.it'', ''redgifs.com''}"
  shows "(self_domain self = d \<longrightarrow> domain_mappings E self w' = (Inr None, w'))
       \<and> (preview post = None \<longrightarrow>
            files (snd (download_post E post w)) = files w
          \<and> requests (snd (download_post E post w)) = requests w
          \<and> (attempts (snd (download_post E post w)) = attempts w
             \<or> attempts (snd (download_post E post w)) = attempts w @ [False])
          \<and> (url post = Some u \<and> get_counter_value E (global_counter w) = Inr v
               \<and> v < max_posts_download E
              \<longrightarrow> attempts (snd (download_post E post w)) = attempts w @ [False]))"
proof (intro conjI impI)
  assume "self_domain self = d"
  with assms(2) show "domain_mappings E self w' = (Inr None, w')"
    by (simp add: domain_mappings_def do_nothing_def returnM_def)
next
  assume p: "preview post = None"
  have dl: "\<And>u. download E \<lparr>self_local_download_dir = local_download_dir E, self_title = title post,
                     self_media_url = u, self_post_details = post, self_domain = d\<rparr> w = (Inr False, w)"
    using assms(2) p by (intro unrecognized_download) simp_all
  have all: "files (snd (download_post E post w)) = files w
      \<and> requests (snd (download_post E post w)) = requests w
      \<and> (attempts (snd (download_post E post w)) = attempts w
             \<or> attempts (snd (download_post E post w)) = attempts w @ [False])"
    using assms(1) dl
    by (cases "get_counter_value E (global_counter w)"; cases "url post";
        cases "increment_counter E False (global_counter w)")
       (simp_all add: download_post_def do_get_counter_value_def do_increment_counter_def monad_defs)
  from all show "files (snd (download_post E post w)) = files w" by simp
  from all show "requests (snd (download_post E post w)) = requests w" by simp
  from all show "attempts (snd (download_post E post w)) = attempts w
             \<or> attempts (snd (download_post E post w)) = attempts w @ [False]" by simp
  assume "url post = Some u \<and> get_counter_value E (global_counter w) = Inr v \<and> v < max_posts_download E"
  then show "attempts (snd (download_post E post w)) = attempts w @ [False]"
    using assms(1) dl
    by (cases "increment_counter E False (global_counter w)")
       (simp_all add: download_post_def do_get_counter_value_def do_increment_counter_def monad_defs)
qed

theorem unrecognized_host_fails_witness:
  "domain_mappings example_env
     \<lparr>self_local_download_dir = ''dl'', self_title = Some ''cat'', self_media_url = ''http://unknown.com/a'',
      self_post_details = example_post ''unknown.com'' ''http://unknown.com/a'' None,
      self_domain = ''unknown.com''\<rparr> example_world = (Inr None, example_world)
   \<and> files (snd (download_post example_env (example_post ''unknown.com'' ''http://unknown.com/a'' None) example_world))
       = files example_world
   \<and> attempts (snd (download_post example_env (example_post ''unknown.com'' ''http://unknown.com/a'' None) example_world))
       = [False]"
  using unrecognized_host_fails[of "example_post ''unknown.com'' ''http://unknown.com/a'' None" "''unknown.com''"
      "\<lparr>self_local_download_dir = ''dl'', self_title = Some ''cat'', self_media_url = ''http://unknown.com/a'',
      self_post_details = example_post ''unknown.com'' ''http://unknown.com/a'' None,
      self_domain = ''unknown.com''\<rparr>" example_env example_world example_world "''http://unknown.com/a''" 0]
  by (simp add: example_post_def example_env_def example_world_def spec_get_counter_value_def)

section \<open>Facts about \<open>replace\<close> and \<open>contains\<close>\<close>

lemma replace_absent:
  assumes "\<not> contains s old" and "old \<noteq> []"
  shows "replace s old new = s"
  using assms by (induction s) auto

lemma startswith_gifv:
  "startswith (c # cs) ''.gifv'' \<Longrightarrow> startswith cs ''gifv''"
  by (auto simp: startswith_def)

lemma startswith_contains:
  "startswith s p \<Longrightarrow> p \<noteq> [] \<Longrightarrow> contains s p"
  by (cases s) (auto simp: startswith_def)

lemma contains_dot_gifv:
  "contains s ''.gifv'' \<Longrightarrow> contains s ''gifv''"
proof (induction s)
  case Nil
  then show ?case by simp
next
  case (Cons c cs)
  from Cons.prems have "startswith (c # cs) ''.gifv'' \<or> contains cs ''.gifv''" by simp
  then show ?case
  proof
    assume "startswith (c # cs) ''.gifv''"
    then have "startswith cs ''gifv''" by (rule startswith_gifv)
    then have "contains cs ''gifv''" by (rule startswith_contains) simp
    then show ?thesis by simp
  next
    assume "contains cs ''.gifv''"
    then show ?thesis using Cons.IH by simp
  qed
qed

lemma imgur_url:
  "(if contains u ''gifv'' then replace u ''.gifv'' ''.mp4'' else u) = replace u ''.gifv'' ''.mp4''"
proof (cases "contains u ''gifv''")
  case True
  then show ?thesis by simp
next
  case False
  then have "\<not> contains u ''.gifv''" using contains_dot_gifv by blast
  then have "replace u ''.gifv'' ''.mp4'' = u" by (rule replace_absent) simp
  with False show ?thesis by simp
qed

lemma no_overlap:
  assumes "\<not> startswith (c # cs) ''.gifv''"
  shows "\<not> startswith (c # cs @ ''.gifv'') ''.gifv''"
proof (cases "length cs < 4")
  case False
  then have "take 4 (cs @ ''.gifv'') = take 4 cs" by simp
  with assms show ?thesis by (simp add: startswith_def)
next
  case True
  then consider "cs = []" | a where "cs = [a]" | a b where "cs = [a, b]"
    | a b d where "cs = [a, b, d]"
    by (cases cs; cases "tl cs"; cases "tl (tl cs)"; cases "tl (tl (tl cs))") auto
  then show ?thesis
    by cases (auto simp: startswith_def)
qed

lemma replace_suffix:
  assumes "\<not> contains p ''.gifv''"
  shows "replace (p @ ''.gifv'') ''.gifv'' ''.mp4'' = p @ ''.mp4''"
  using assms
proof (induction p)
  case Nil
  show ?case by (simp add: startswith_def)
next
  case (Cons c cs)
  from Cons.prems have a: "\<not> startswith (c # cs) ''.gifv''" and b: "\<not> contains cs ''.gifv''"
    by simp_all
  have "\<not> startswith (c # cs @ ''.gifv'') ''.gifv''" using a by (rule no_overlap)
  then show ?case using Cons.IH[OF b] by simp
qed

section \<open>Facts about the core download\<close>

lemma bindM_Inr: "m w = (Inr x, w') \<Longrightarrow> bindM m f w = f x w'"
  by (simp add: bindM_def)

lemma bindM_Inl: "m w = (Inl e, w') \<Longrightarrow> bindM m f w = (Inl e, w')"
  by (simp add: bindM_def)

lemma try_except_Inr: "m w = (Inr x, w') \<Longrightarrow> try_except m h w = (Inr x, w')"
  by (simp add: try_except_def)

lemma try_except_Inl: "m w = (Inl e, w') \<Longrightarrow> try_except m h w = h e w'"
  by (simp add: try_except_def)

lemma core_download_exists:
  assumes "files w local_filename \<noteq> None"
  shows "core_download E download_url local_filename w = (Inr (), w)"
  using assms by (simp add: core_download_def try_except_def)

lemma core_download_returns: "fst (core_download E download_url local_filename w) = Inr ()"
proof -
  have "\<not> isl (fst (core_download E download_url local_filename w))"
    unfolding core_download_def
    by (rule try_except_never_raises) (simp add: logging_error_def)
  then show ?thesis by (cases "fst (core_download E download_url local_filename w)") auto
qed

lemma core_download_eq:
  "core_download E download_url local_filename w
     = (Inr (), snd (core_download E download_url local_filename w))"
  using core_download_returns[of E download_url local_filename w]
  by (cases "core_download E download_url local_filename w") simp

lemma core_download_requests:
  "requests (snd (core_download E download_url local_filename w))
     = requests w @ (if files w local_filename = None then [download_url] else [])"
proof (cases "files w local_filename = None")
  case False
  then show ?thesis by (simp add: core_download_exists)
next
  case True
  let ?rest = "\<lambda>r. bindM (raise_for_status r) (\<lambda>_.
              bindM (do_open_wb E local_filename) (\<lambda>_.
              bindM (write_chunks E local_filename (chunks r)) (\<lambda>_.
              (case broken r of Some e \<Rightarrow> raiseM e | None \<Rightarrow> returnM ()))))"
  let ?w = "w\<lparr>requests := requests w @ [download_url]\<rparr>"
  have kt: "\<And>r. keeps requests (?rest r)"
    by (rule keeps_transfer) simp
  have rest: "\<And>r. requests (snd (?rest r ?w)) = requests ?w"
    using kt unfolding keeps_def by blast
  show ?thesis
  proof (cases "requests_get E download_url")
    case (Inl e)
    with True show ?thesis
      by (simp add: core_download_def do_requests_get_def monad_defs)
  next
    case (Inr r)
    obtain x w' where rw: "?rest r ?w = (x, w')" by (cases "?rest r ?w")
    with rest[of r] have rq: "requests w' = requests w @ [download_url]" by simp
    have dr: "do_requests_get E download_url w = (Inr r, ?w)"
      using Inr by (simp add: do_requests_get_def)
    have body: "bindM (do_requests_get E download_url) ?rest w = (x, w')"
      using rw bindM_Inr[of "do_requests_get E download_url" w r ?w ?rest, OF dr] by simp
    show ?thesis
    proof (cases x)
      case (Inl e)
      with body True rq show ?thesis
        by (simp add: core_download_def try_except_def logging_error_def)
    next
      case (Inr u)
      with body True rq show ?thesis
        by (simp add: core_download_def try_except_def)
    qed
  qed
qed

lemma download_to_local_file_raises:
  assumes "construct_local_filename E (self_title self) (Some u) None (self_local_download_dir self) = Inl e"
  shows "download_to_local_file E self u w = (Inl e, w)"
  using assms by (simp add: download_to_local_file_def monad_defs)

lemma download_to_local_file_returns:
  assumes "construct_local_filename E (self_title self) (Some u) None (self_local_download_dir self) = Inr f"
  shows "download_to_local_file E self u w = (Inr (Some f), snd (core_download E (JStr u) f w))"
proof -
  obtain w' where "core_download E (JStr u) f w = (Inr (), w')"
    using core_download_eq by blast
  then show ?thesis
    using assms by (simp add: download_to_local_file_def monad_defs)
qed

section \<open>Exceptions\<close>





section \<open>A failed transfer is not reported\<close>

text \<open>
  Claim C2 against the code. \<^verbatim>\<open>_core_download\<close> catches and logs what the transfer
  raises and then returns as after a complete transfer, so the handler of
  \<^verbatim>\<open>_download_to_local_file\<close> is never entered: whenever the file name can be built,
  \<^verbatim>\<open>_download_to_local_file\<close> returns that name and never \<^verbatim>\<open>None\<close>. In particular
  it returns the name, with the error only logged, when \<^verbatim>\<open>requests.get\<close> raises, when
  \<^verbatim>\<open>raise_for_status\<close> raises on a 4xx or 5xx status, and when \<^verbatim>\<open>open\<close> raises.
\<close>

theorem failed_transfer_still_yields_filename:
  assumes "construct_local_filename E (self_title self) (Some u) None (self_local_download_dir self)
             = Inr f"
  shows "fst (download_to_local_file E self u w) = Inr (Some f)
   \<and> (files w f = None \<and> requests_get E (JStr u) = Inl e
        \<longrightarrow> download_to_local_file E self u w
              = (Inr (Some f), w\<lparr>requests := requests w @ [JStr u],
                                 log := log w @ [(''Error in core download'', e)]\<rparr>))
   \<and> (files w f = None \<and> requests_get E (JStr u) = Inr r
        \<and> 400 \<le> status_code r \<and> status_code r < 600
        \<longrightarrow> download_to_local_file E self u w
              = (Inr (Some f), w\<lparr>requests := requests w @ [JStr u],
                                 log := log w @ [(''Error in core download'',
                                                  HTTPError (status_code r))]\<rparr>))
   \<and> (files w f = None \<and> requests_get E (JStr u) = Inr r
        \<and> \<not> (400 \<le> status_code r \<and> status_code r < 600) \<and> open_wb E f = Some e
        \<longrightarrow> download_to_local_file E self u w
              = (Inr (Some f), w\<lparr>requests := requests w @ [JStr u],
                                 log := log w @ [(''Error in core download'', e)]\<rparr>))"
proof (intro conjI impI)
  show "fst (download_to_local_file E self u w) = Inr (Some f)"
    using download_to_local_file_returns[OF assms, of w] by simp
next
  assume "files w f = None \<and> requests_get E (JStr u) = Inl e"
  then show "download_to_local_file E self u w
              = (Inr (Some f), w\<lparr>requests := requests w @ [JStr u],
                                 log := log w @ [(''Error in core download'', e)]\<rparr>)"
    using assms
    by (simp add: download_to_local_file_def core_download_def do_requests_get_def monad_defs)
next
  assume "files w f = None \<and> requests_get E (JStr u) = Inr r
        \<and> 400 \<le> status_code r \<and> status_code r < 600"
  then show "download_to_local_file E self u w
              = (Inr (Some f), w\<lparr>requests := requests w @ [JStr u],
                                 log := log w @ [(''Error in core download'',
                                                  HTTPError (status_code r))]\<rparr>)"
    using assms
    by (simp add: download_to_local_file_def core_download_def do_requests_get_def
          raise_for_status_def monad_defs)
next
  assume "files w f = None \<and> requests_get E (JStr u) = Inr r
        \<and> \<not> (400 \<le> status_code r \<and> status_code r < 600) \<and> open_wb E f = Some e"
  then show "download_to_local_file E self u w
              = (Inr (Some f), w\<lparr>requests := requests w @ [JStr u],
                                 log := log w @ [(''Error in core download'', e)]\<rparr>)"
    using assms
    by (auto simp add: download_to_local_file_def core_download_def do_requests_get_def
          raise_for_status_def do_open_wb_def monad_defs)
qed

theorem failed_transfer_still_yields_filename_witness:
  "download_to_local_file example_env
       (example_helper ''i.redd.it'' ''http://i.redd.it/gone.jpg'' None)
       ''http://i.redd.it/gone.jpg'' example_world
     = (Inr (Some ''dl/cat_gone.jpg''),
        example_world\<lparr>requests := [JStr ''http://i.redd.it/gone.jpg''],
                       log := [(''Error in core download'', HTTPError 404)]\<rparr>)
   \<and> download_to_local_file example_env
       (example_helper ''i.redd.it'' ''http://i.redd.it/lost.jpg'' None)
       ''http://i.redd.it/lost.jpg'' example_world
     = (Inr (Some ''dl/cat_lost.jpg''),
        example_world\<lparr>requests := [JStr ''http://i.redd.it/lost.jpg''],
                       log := [(''Error in core download'', External ''ConnectionError'')]\<rparr>)"
  using failed_transfer_still_yields_filename[of example_env
          "example_helper ''i.redd.it'' ''http://i.redd.it/gone.jpg'' None"
          "''http://i.redd.it/gone.jpg''" "''dl/cat_gone.jpg''" example_world _
          "\<lparr>status_code = 404, chunks = [], broken = None\<rparr>"]
        failed_transfer_still_yields_filename[of example_env
          "example_helper ''i.redd.it'' ''http://i.redd.it/lost.jpg'' None"
          "''http://i.redd.it/lost.jpg''" "''dl/cat_lost.jpg''" example_world
          "External ''ConnectionError''"]
  by (simp add: example_defs example_requests_get_def spec_construct_local_filename_def
        basename_def)


text \<open>
  End to end: on a 404 the handler \<^verbatim>\<open>ireddit\<close> yields the name of a file that was never
  created, and when the connection is cut after the first chunk the partial file passes
  the emptiness check and \<^verbatim>\<open>download_post\<close> reports a success to the counter.
\<close>

theorem partial_file_counts_as_success:
  "ireddit example_env (example_helper ''i.redd.it'' ''http://i.redd.it/gone.jpg'' None) example_world
     = (Inr (Some ''dl/cat_gone.jpg''),
        example_world\<lparr>requests := [JStr ''http://i.redd.it/gone.jpg''],
                       log := [(''Error in core download'', HTTPError 404)]\<rparr>)
   \<and> attempts (snd (download_post example_env
                      (example_post ''i.redd.it'' ''http://i.redd.it/cut.jpg'' None) example_world))
       = [True]
   \<and> log (snd (download_post example_env
                      (example_post ''i.redd.it'' ''http://i.redd.it/cut.jpg'' None) example_world))
       = [(''Error in core download'', External ''ChunkedEncodingError'')]
   \<and> files (snd (download_post example_env
                      (example_post ''i.redd.it'' ''http://i.redd.it/cut.jpg'' None) example_world))
        ''dl/cat_cut.jpg'' = Some ''JF''"
  by (simp add: method_defs monad_defs example_defs)

section \<open>Primary download and fallback\<close>

lemma bindM_assoc: "bindM (bindM m f) g = bindM m (\<lambda>x. bindM (f x) g)"
  by (rule ext) (simp add: bindM_def split: prod.splits sum.splits)

lemma download_stages:
  "download E self =
     try_except
       (bindM (bindM (domain_mappings E self) (validated E)) (\<lambda>download_successful.
        if download_successful then returnM True
        else bindM (bindM (attempt_naive_preview_download E self) (validated E))
               (\<lambda>naive_download_successful.
                  returnM (download_successful \<or> naive_download_successful))))
       (\<lambda>e. bindM (logging_error ''Error downloading media'' e) (\<lambda>_. returnM False))"
  unfolding download_def validated_def bindM_assoc ..

lemma bindM_stage:
  assumes "bindM m f w = (Inr x, w')"
  shows "bindM (bindM m f) g w = g x w'"
  using bindM_Inr[of "bindM m f" w x w' g, OF assms] .

lemma download_primary:
  assumes "bindM (domain_mappings E self) (validated E) w = (Inr True, w1)"
  shows "download E self w = (Inr True, w1)"
  unfolding download_stages
  by (rule try_except_Inr) (simp add: bindM_stage[OF assms] returnM_def)

lemma download_fallback:
  assumes "bindM (domain_mappings E self) (validated E) w = (Inr False, w1)"
    and "bindM (attempt_naive_preview_download E self) (validated E) w1 = (Inr fallback, w2)"
  shows "download E self w = (Inr fallback, w2)"
  unfolding download_stages
  by (rule try_except_Inr) (simp add: bindM_stage[OF assms(1)] bindM_stage[OF assms(2)] returnM_def)

lemma download_post_reports:
  assumes "domain post = Some d" and "url post = Some u"
    and "get_counter_value E (global_counter w) = Inr v" and "v < max_posts_download E"
    and "download E \<lparr>self_local_download_dir = local_download_dir E, self_title = title post,
                      self_media_url = u, self_post_details = post, self_domain = d\<rparr> w
           = (Inr b, w')"
  shows "fst (download_post E post w) = Inr RNone
       \<and> attempts (snd (download_post E post w)) = attempts w @ [b]
       \<and> files (snd (download_post E post w)) = files w'
       \<and> requests (snd (download_post E post w)) = requests w'
       \<and> lookups (snd (download_post E post w)) = lookups w'"
proof -
  have "attempts w' = attempts w"
    using download_keeps_attempts assms(5) by (rule keepsD)
  then show ?thesis
    using assms
    by (cases "increment_counter E b (global_counter w')")
       (simp_all add: download_post_def do_get_counter_value_def do_increment_counter_def monad_defs)
qed

lemma naive_preview_fetch:
  assumes "preview (self_post_details self) = Some pv"
    and "preview_url_of pv = Inr pu"
    and "construct_local_filename E (self_title self) None (Some ''.jpg'')
           (self_local_download_dir self) = Inr nf"
  shows "attempt_naive_preview_download E self w
           = (Inr (Some nf), snd (core_download E pu nf w))"
proof -
  obtain w' where "core_download E pu nf w = (Inr (), w')"
    using core_download_eq by blast
  then show ?thesis
    using assms by (simp add: attempt_naive_preview_download_def monad_defs)
qed

lemma validated_requests:
  "validated E lf w = (r, w') \<Longrightarrow> requests w' = requests w"
  by (rule keepsD[OF keeps_validated]) simp_all

lemma stage_requests:
  assumes "m w = (Inr x, wa)" and "bindM m (validated E) w = (r, w')"
  shows "requests w' = requests wa"
  using assms(2) validated_requests[of E x wa r w'] bindM_Inr[of m w x wa "validated E", OF assms(1)]
  by simp

lemma stage_flags_reported:
  assumes "domain post = Some d" and "url post = Some u"
    and "get_counter_value E (global_counter w) = Inr v" and "v < max_posts_download E"
    and "self = \<lparr>self_local_download_dir = local_download_dir E, self_title = title post,
                 self_media_url = u, self_post_details = post, self_domain = d\<rparr>"
    and "bindM (domain_mappings E self) (validated E) w = (Inr primary, w1)"
    and "\<not> primary \<Longrightarrow>
           bindM (attempt_naive_preview_download E self) (validated E) w1 = (Inr fallback, w2)"
  shows "fst (download_post E post w) = Inr RNone
       \<and> attempts (snd (download_post E post w)) = attempts w @ [primary \<or> fallback]
       \<and> (primary \<longrightarrow> files (snd (download_post E post w)) = files w1
                     \<and> requests (snd (download_post E post w)) = requests w1)
       \<and> (\<not> primary \<longrightarrow> files (snd (download_post E post w)) = files w2
                       \<and> requests (snd (download_post E post w)) = requests w2)
       \<and> (\<not> primary \<and> preview post = Some pv \<and> preview_url_of pv = Inr pu
            \<and> construct_local_filename E (title post) None (Some ''.jpg'') (local_download_dir E)
                = Inr nf
          \<longrightarrow> attempt_naive_preview_download E self w1
                = (Inr (Some nf), snd (core_download E pu nf w1))
              \<and> requests w2 = requests w1 @ (if files w1 nf = None then [pu] else []))"
proof (cases primary)
  case True
  then have "download E self w = (Inr True, w1)"
    using assms(6) by (intro download_primary) simp
  then show ?thesis
    using True download_post_reports[OF assms(1-4), of True w1] assms(5) by simp
next
  case False
  then have fb: "bindM (attempt_naive_preview_download E self) (validated E) w1 = (Inr fallback, w2)"
    by (rule assms(7))
  have "download E self w = (Inr fallback, w2)"
    using assms(6) False fb by (intro download_fallback) simp_all
  then have rep: "fst (download_post E post w) = Inr RNone
       \<and> attempts (snd (download_post E post w)) = attempts w @ [fallback]
       \<and> files (snd (download_post E post w)) = files w2
       \<and> requests (snd (download_post E post w)) = requests w2"
    using download_post_reports[OF assms(1-4), of fallback w2] assms(5) by simp
  have fetch: "attempt_naive_preview_download E self w1
                = (Inr (Some nf), snd (core_download E pu nf w1))
              \<and> requests w2 = requests w1 @ (if files w1 nf = None then [pu] else [])"
    if h: "preview post = Some pv \<and> preview_url_of pv = Inr pu
            \<and> construct_local_filename E (title post) None (Some ''.jpg'') (local_download_dir E)
                = Inr nf"
  proof -
    have a: "attempt_naive_preview_download E self w1
                = (Inr (Some nf), snd (core_download E pu nf w1))"
      using h assms(5) by (intro naive_preview_fetch[of _ pv]) simp_all
    have "requests w2 = requests (snd (core_download E pu nf w1))"
      using a fb by (rule stage_requests)
    with a show ?thesis by (simp add: core_download_requests)
  qed
  show ?thesis using False rep fetch by simp
qed

lemma download_primary_raises:
  assumes "bindM (domain_mappings E self) (validated E) w = (Inl e, w1)"
  shows "download E self w
           = (Inr False, w1\<lparr>log := log w1 @ [(''Error downloading media'', e)]\<rparr>)"
proof -
  have "bindM (bindM (domain_mappings E self) (validated E))
          (\<lambda>download_successful.
             if download_successful then returnM True
             else bindM (bindM (attempt_naive_preview_download E self) (validated E))
                    (\<lambda>naive_download_successful.
                       returnM (download_successful \<or> naive_download_successful))) w
        = (Inl e, w1)"
    using assms by (rule bindM_Inl)
  then show ?thesis
    unfolding download_stages by (simp add: try_except_Inl monad_defs)
qed

lemma download_fallback_raises:
  assumes "bindM (domain_mappings E self) (validated E) w = (Inr False, w1)"
    and "bindM (attempt_naive_preview_download E self) (validated E) w1 = (Inl e, w2)"
  shows "download E self w
           = (Inr False, w2\<lparr>log := log w2 @ [(''Error downloading media'', e)]\<rparr>)"
proof -
  let ?K = "\<lambda>download_successful.
             if download_successful then returnM True
             else bindM (bindM (attempt_naive_preview_download E self) (validated E))
                    (\<lambda>naive_download_successful.
                       returnM (download_successful \<or> naive_download_successful))"
  have inner: "bindM (bindM (attempt_naive_preview_download E self) (validated E))
          (\<lambda>naive_download_successful. returnM (False \<or> naive_download_successful)) w1
        = (Inl e, w2)"
    using assms(2) by (rule bindM_Inl)
  have "bindM (bindM (domain_mappings E self) (validated E)) ?K w = ?K False w1"
    using assms(1) by (rule bindM_stage)
  with inner have body: "bindM (bindM (domain_mappings E self) (validated E)) ?K w = (Inl e, w2)"
    by simp
  have "download E self w
          = (\<lambda>e. bindM (logging_error ''Error downloading media'' e) (\<lambda>_. returnM False)) e w2"
    unfolding download_stages using body by (rule try_except_Inl)
  then show ?thesis by (simp add: monad_defs)
qed

text \<open>
  Claim C3, as the code has it. For a post with domain and URL, processed under quota,
  \<^verbatim>\<open>download_post\<close> returns \<^verbatim>\<open>None\<close> and calls \<^verbatim>\<open>increment_counter\<close> exactly
  once. Let the primary stage be the handler followed by the emptiness check, and the
  fallback stage the preview download followed by the emptiness check. If the primary
  stage returns true, true is reported and nothing more is fetched or written. If it
  returns false, the fallback stage runs and its flag is reported; when the preview URL
  can be read, the preview goes through one \<^verbatim>\<open>_core_download\<close> call to the name built
  with the suffix \<^verbatim>\<open>.jpg\<close>: one request for the preview URL, none if that file exists
  already. If a stage raises (the emptiness check does), false is reported and, when it
  was the primary stage, the fallback is not run.
\<close>

theorem outcome_is_primary_or_fallback:
  assumes "domain post = Some d" and "url post = Some u"
    and "get_counter_value E (global_counter w) = Inr v" and "v < max_posts_download E"
    and "self = \<lparr>self_local_download_dir = local_download_dir E, self_title = title post,
                 self_media_url = u, self_post_details = post, self_domain = d\<rparr>"
  shows "fst (download_post E post w) = Inr RNone
       \<and> (\<exists>b. attempts (snd (download_post E post w)) = attempts w @ [b])
       \<and> (bindM (domain_mappings E self) (validated E) w = (Inr True, w1)
          \<longrightarrow> attempts (snd (download_post E post w)) = attempts w @ [True]
              \<and> files (snd (download_post E post w)) = files w1
              \<and> requests (snd (download_post E post w)) = requests w1)
       \<and> (bindM (domain_mappings E self) (validated E) w = (Inr False, w1)
            \<and> bindM (attempt_naive_preview_download E self) (validated E) w1 = (Inr fallback, w2)
          \<longrightarrow> attempts (snd (download_post E post w)) = attempts w @ [fallback]
              \<and> files (snd (download_post E post w)) = files w2
              \<and> requests (snd (download_post E post w)) = requests w2
              \<and> (preview post = Some pv \<and> preview_url_of pv = Inr pu
                   \<and> construct_local_filename E (title post) None (Some ''.jpg'')
                        (local_download_dir E) = Inr nf
                 \<longrightarrow> attempt_naive_preview_download E self w1
                       = (Inr (Some nf), snd (core_download E pu nf w1))
                     \<and> requests w2 = requests w1 @ (if files w1 nf = None then [pu] else [])))
       \<and> (bindM (domain_mappings E self) (validated E) w = (Inl e, w1)
          \<longrightarrow> attempts (snd (download_post E post w)) = attempts w @ [False]
              \<and> files (snd (download_post E post w)) = files w1
              \<and> requests (snd (download_post E post w)) = requests w1)
       \<and> (bindM (domain_mappings E self) (validated E) w = (Inr False, w1)
            \<and> bindM (attempt_naive_preview_download E self) (validated E) w1 = (Inl e, w2)
          \<longrightarrow> attempts (snd (download_post E post w)) = attempts w @ [False]
              \<and> files (snd (download_post E post w)) = files w2
              \<and> requests (snd (download_post E post w)) = requests w2)"
proof -
  obtain b w' where d: "download E self w = (Inr b, w')"
    using download_returns by blast
  have rep: "fst (download_post E post w) = Inr RNone
       \<and> attempts (snd (download_post E post w)) = attempts w @ [b]"
    using download_post_reports[OF assms(1-4), of b w'] d assms(5) by simp
  have one: "\<exists>b. attempts (snd (download_post E post w)) = attempts w @ [b]"
    using rep by blast
  have prim: "attempts (snd (download_post E post w)) = attempts w @ [True]
              \<and> files (snd (download_post E post w)) = files w1
              \<and> requests (snd (download_post E post w)) = requests w1"
    if h: "bindM (domain_mappings E self) (validated E) w = (Inr True, w1)"
    using stage_flags_reported[OF assms(1-5) h, of fallback w2] by simp
  have fall: "attempts (snd (download_post E post w)) = attempts w @ [fallback]
              \<and> files (snd (download_post E post w)) = files w2
              \<and> requests (snd (download_post E post w)) = requests w2
              \<and> (preview post = Some pv \<and> preview_url_of pv = Inr pu
                   \<and> construct_local_filename E (title post) None (Some ''.jpg'')
                        (local_download_dir E) = Inr nf
                 \<longrightarrow> attempt_naive_preview_download E self w1
                       = (Inr (Some nf), snd (core_download E pu nf w1))
                     \<and> requests w2 = requests w1 @ (if files w1 nf = None then [pu] else []))"
    if h: "bindM (domain_mappings E self) (validated E) w = (Inr False, w1)
            \<and> bindM (attempt_naive_preview_download E self) (validated E) w1 = (Inr fallback, w2)"
    using stage_flags_reported[OF assms(1-5), of False w1 fallback w2 pv pu nf] h by simp
  have praise: "attempts (snd (download_post E post w)) = attempts w @ [False]
              \<and> files (snd (download_post E post w)) = files w1
              \<and> requests (snd (download_post E post w)) = requests w1"
    if h: "bindM (domain_mappings E self) (validated E) w = (Inl e, w1)"
  proof -
    have "download E self w
            = (Inr False, w1\<lparr>log := log w1 @ [(''Error downloading media'', e)]\<rparr>)"
      using h by (rule download_primary_raises)
    then show ?thesis
      using download_post_reports[OF assms(1-4),
          of False "w1\<lparr>log := log w1 @ [(''Error downloading media'', e)]\<rparr>"] assms(5)
      by simp
  qed
  have fraise: "attempts (snd (download_post E post w)) = attempts w @ [False]
              \<and> files (snd (download_post E post w)) = files w2
              \<and> requests (snd (download_post E post w)) = requests w2"
    if h: "bindM (domain_mappings E self) (validated E) w = (Inr False, w1)
            \<and> bindM (attempt_naive_preview_download E self) (validated E) w1 = (Inl e, w2)"
  proof -
    have "download E self w
            = (Inr False, w2\<lparr>log := log w2 @ [(''Error downloading media'', e)]\<rparr>)"
      using download_fallback_raises[OF h[THEN conjunct1] h[THEN conjunct2]] .
    then show ?thesis
      using download_post_reports[OF assms(1-4),
          of False "w2\<lparr>log := log w2 @ [(''Error downloading media'', e)]\<rparr>"] assms(5)
      by simp
  qed
  show ?thesis
    using rep one prim fall praise fraise by blast
qed

theorem outcome_is_primary_or_fallback_witness:
  "attempts (snd (download_post example_env
                    (example_post ''i.redd.it'' ''http://i.redd.it/gone.jpg'' (Some example_preview))
                    example_world)) = [True]
   \<and> requests (snd (download_post example_env
                    (example_post ''i.redd.it'' ''http://i.redd.it/gone.jpg'' (Some example_preview))
                    example_world))
       = [JStr ''http://i.redd.it/gone.jpg'', JStr ''http://p.it/p.jpg'']
   \<and> attempts (snd (download_post example_env
                    (example_post ''i.redd.it'' ''http://i.redd.it/x.jpg'' (Some example_preview))
                    example_world)) = [True]
   \<and> requests (snd (download_post example_env
                    (example_post ''i.redd.it'' ''http://i.redd.it/x.jpg'' (Some example_preview))
                    example_world))
       = [JStr ''http://i.redd.it/x.jpg'']
   \<and> attempts (snd (download_post failing_disk_env
                    (example_post ''i.redd.it'' ''http://i.redd.it/x.jpg'' (Some example_preview))
                    example_world)) = [False]"
proof -
  let ?post = "example_post ''i.redd.it'' ''http://i.redd.it/gone.jpg'' (Some example_preview)"
  let ?self = "example_helper ''i.redd.it'' ''http://i.redd.it/gone.jpg'' (Some example_preview)"
  let ?w1 = "example_world\<lparr>requests := [JStr ''http://i.redd.it/gone.jpg''],
                            log := [(''Error in core download'', HTTPError 404)]\<rparr>"
  let ?w2 = "example_world\<lparr>files := [''dl/cat.jpg'' \<mapsto> ''PNG''],
                            requests := [JStr ''http://i.redd.it/gone.jpg'', JStr ''http://p.it/p.jpg''],
                            log := [(''Error in core download'', HTTPError 404)]\<rparr>"
  let ?xpost = "example_post ''i.redd.it'' ''http://i.redd.it/x.jpg'' (Some example_preview)"
  let ?xself = "example_helper ''i.redd.it'' ''http://i.redd.it/x.jpg'' (Some example_preview)"
  let ?x1 = "example_world\<lparr>files := [''dl/cat_x.jpg'' \<mapsto> ''JFIF''],
                            requests := [JStr ''http://i.redd.it/x.jpg'']\<rparr>"
  have d: "domain ?post = Some ''i.redd.it''" and u: "url ?post = Some ''http://i.redd.it/gone.jpg''"
    and xd: "domain ?xpost = Some ''i.redd.it''" and xu: "url ?xpost = Some ''http://i.redd.it/x.jpg''"
    by (simp_all add: example_post_def)
  have c: "get_counter_value example_env (global_counter example_world) = Inr 0"
    and q: "(0::int) < max_posts_download example_env"
    by (simp_all add: example_env_def example_world_def spec_get_counter_value_def)
  have s: "?self = \<lparr>self_local_download_dir = local_download_dir example_env,
                     self_title = title ?post, self_media_url = ''http://i.redd.it/gone.jpg'',
                     self_post_details = ?post, self_domain = ''i.redd.it''\<rparr>"
    and xs: "?xself = \<lparr>self_local_download_dir = local_download_dir example_env,
                     self_title = title ?xpost, self_media_url = ''http://i.redd.it/x.jpg'',
                     self_post_details = ?xpost, self_domain = ''i.redd.it''\<rparr>"
    by (simp_all add: example_helper_def example_post_def example_env_def)
  have p: "bindM (domain_mappings example_env ?self) (validated example_env) example_world
             = (Inr False, ?w1)"
    by (simp add: method_defs monad_defs example_defs)
  have f: "bindM (attempt_naive_preview_download example_env ?self) (validated example_env) ?w1
             = (Inr True, ?w2)"
    by (simp add: method_defs monad_defs example_defs)
  have xp: "bindM (domain_mappings example_env ?xself) (validated example_env) example_world
             = (Inr True, ?x1)"
    by (simp add: method_defs monad_defs example_defs)
  have a: "attempts (snd (download_post example_env ?post example_world)) = [True]
       \<and> requests (snd (download_post example_env ?post example_world))
           = [JStr ''http://i.redd.it/gone.jpg'', JStr ''http://p.it/p.jpg'']"
    using p f outcome_is_primary_or_fallback[OF d u c q s, where ?w1.0 = ?w1 and ?w2.0 = ?w2
        and fallback = True]
    by (simp add: example_world_def)
  have b: "attempts (snd (download_post example_env ?xpost example_world)) = [True]
       \<and> requests (snd (download_post example_env ?xpost example_world))
           = [JStr ''http://i.redd.it/x.jpg'']"
    using xp outcome_is_primary_or_fallback[OF xd xu c q xs, where ?w1.0 = ?x1]
    by (simp add: example_world_def)
  have fc: "get_counter_value failing_disk_env (global_counter example_world) = Inr 0"
    and fq: "(0::int) < max_posts_download failing_disk_env"
    by (simp_all add: failing_disk_env_def example_env_def example_world_def
          spec_get_counter_value_def)
  have fs: "?xself = \<lparr>self_local_download_dir = local_download_dir failing_disk_env,
                     self_title = title ?xpost, self_media_url = ''http://i.redd.it/x.jpg'',
                     self_post_details = ?xpost, self_domain = ''i.redd.it''\<rparr>"
    by (simp add: failing_disk_env_def example_helper_def example_post_def example_env_def)
  have fp: "bindM (domain_mappings failing_disk_env ?xself) (validated failing_disk_env) example_world
             = (Inl (External ''PermissionError''), ?x1)"
    by (simp add: failing_disk_env_def method_defs monad_defs example_defs)
  have r: "attempts (snd (download_post failing_disk_env ?xpost example_world)) = [False]"
    using fp outcome_is_primary_or_fallback[OF xd xu fc fq fs, where ?w1.0 = ?x1
        and e = "External ''PermissionError''"]
    by (simp add: example_world_def)
  from a b r show ?thesis by simp
qed

text \<open>
  The claim as stated fails when the emptiness check of the primary file raises: the
  primary validation has failed and the post has a readable preview URL, yet the preview
  is never fetched and a failure is reported.
\<close>

theorem validator_raises_no_fallback_counterexample:
  "preview_url_of example_preview = Inr (JStr ''http://p.it/p.jpg'')
   \<and> requests (snd (download_post failing_disk_env
                      (example_post ''i.redd.it'' ''http://i.redd.it/x.jpg'' (Some example_preview))
                      example_world))
       = [JStr ''http://i.redd.it/x.jpg'']
   \<and> attempts (snd (download_post failing_disk_env
                      (example_post ''i.redd.it'' ''http://i.redd.it/x.jpg'' (Some example_preview))
                      example_world))
       = [False]
   \<and> log (snd (download_post failing_disk_env
                      (example_post ''i.redd.it'' ''http://i.redd.it/x.jpg'' (Some example_preview))
                      example_world))
       = [(''Error downloading media'', External ''PermissionError'')]"
  by (simp add: failing_disk_env_def method_defs monad_defs example_defs)

section \<open>The imgur handler\<close>

lemma imgur_eq:
  "imgur E self w =
     try_except
       (download_to_local_file E
          (self\<lparr>self_media_url := replace (self_media_url self) ''.gifv'' ''.mp4''\<rparr>)
          (replace (self_media_url self) ''.gifv'' ''.mp4''))
       (\<lambda>e. bindM (logging_error ''Error downloading from imgur'' e) (\<lambda>_. returnM None)) w"
  by (simp add: imgur_def Let_def imgur_url)

lemma imgur_requests:
  "requests (snd (imgur E self w)) =
     requests w @
       (case construct_local_filename E (self_title self)
               (Some (replace (self_media_url self) ''.gifv'' ''.mp4'')) None
               (self_local_download_dir self) of
          Inl e \<Rightarrow> []
        | Inr f \<Rightarrow> if files w f = None
                   then [JStr (replace (self_media_url self) ''.gifv'' ''.mp4'')] else [])"
proof -
  let ?u = "replace (self_media_url self) ''.gifv'' ''.mp4''"
  let ?self = "self\<lparr>self_media_url := ?u\<rparr>"
  show ?thesis
  proof (cases "construct_local_filename E (self_title self) (Some ?u) None
                  (self_local_download_dir self)")
    case (Inl e)
    then have "download_to_local_file E ?self ?u w = (Inl e, w)"
      by (intro download_to_local_file_raises) simp
    then show ?thesis
      using Inl by (simp add: imgur_eq try_except_Inl handler_apply)
  next
    case (Inr f)
    then have "download_to_local_file E ?self ?u w
                 = (Inr (Some f), snd (core_download E (JStr ?u) f w))"
      by (intro download_to_local_file_returns) simp
    then show ?thesis
      using Inr by (simp add: imgur_eq try_except_Inr core_download_requests)
  qed
qed

lemma naive_requests_extend:
  "\<exists>rest. requests (snd (attempt_naive_preview_download E self w)) = requests w @ rest
          \<and> (preview (self_post_details self) = None \<longrightarrow> rest = [])"
proof (cases "preview (self_post_details self)")
  case None
  then show ?thesis by (simp add: attempt_naive_preview_download_def monad_defs)
next
  case (Some pv)
  show ?thesis
  proof (cases "preview_url_of pv")
    case (Inl e)
    with Some show ?thesis by (simp add: attempt_naive_preview_download_def monad_defs)
  next
    case pu: (Inr pu)
    show ?thesis
    proof (cases "construct_local_filename E (self_title self) None (Some ''.jpg'')
                    (self_local_download_dir self)")
      case (Inl e)
      with Some pu show ?thesis by (simp add: attempt_naive_preview_download_def monad_defs)
    next
      case (Inr nf)
      have "attempt_naive_preview_download E self w
              = (Inr (Some nf), snd (core_download E pu nf w))"
        using Some pu Inr by (rule naive_preview_fetch)
      then show ?thesis using Some by (simp add: core_download_requests)
    qed
  qed
qed

lemma download_requests_extend:
  "\<exists>rest. requests (snd (download E self w)) = requests (snd (domain_mappings E self w)) @ rest
          \<and> (preview (self_post_details self) = None \<longrightarrow> rest = [])"
proof -
  obtain r w1 where dm: "domain_mappings E self w = (r, w1)" by (cases "domain_mappings E self w")
  have nv: "\<And>w2. \<exists>rest. requests (snd (attempt_naive_preview_download E self w2))
                            = requests w2 @ rest
                          \<and> (preview (self_post_details self) = None \<longrightarrow> rest = [])"
    by (rule naive_requests_extend)
  show ?thesis
  proof (cases r)
    case (Inl e)
    with dm show ?thesis by (simp add: download_def monad_defs)
  next
    case lf: (Inr lf)
    obtain r2 w2 where v: "validated E lf w1 = (r2, w2)" by (cases "validated E lf w1")
    then have q2: "requests w2 = requests w1" by (rule validated_requests)
    have st: "bindM (domain_mappings E self) (validated E) w = (r2, w2)"
      using dm lf v by (simp add: bindM_def)
    show ?thesis
    proof (cases r2)
      case (Inl e)
      with st have "bindM (bindM (domain_mappings E self) (validated E))
                      (\<lambda>download_successful.
                         if download_successful then returnM True
                         else bindM (bindM (attempt_naive_preview_download E self) (validated E))
                                (\<lambda>naive_download_successful.
                                   returnM (download_successful \<or> naive_download_successful))) w
                    = (Inl e, w2)"
        by (simp add: bindM_Inl)
      then show ?thesis
        using dm q2 unfolding download_stages by (simp add: try_except_Inl handler_apply)
    next
      case b: (Inr b)
      show ?thesis
      proof (cases b)
        case True
        with st b have "download E self w = (Inr True, w2)" by (intro download_primary) simp
        with dm q2 show ?thesis by simp
      next
        case False
        obtain r3 w3 where n: "attempt_naive_preview_download E self w2 = (r3, w3)"
          by (cases "attempt_naive_preview_download E self w2")
        obtain rest where q3: "requests w3 = requests w2 @ rest"
          and e3: "preview (self_post_details self) = None \<longrightarrow> rest = []"
          using nv[of w2] n by auto
        obtain r4 w4 where f: "bindM (attempt_naive_preview_download E self) (validated E) w2
                                 = (r4, w4)"
          by (cases "bindM (attempt_naive_preview_download E self) (validated E) w2")
        have q4: "requests w4 = requests w3"
        proof (cases r3)
          case (Inl e)
          with n f show ?thesis by (simp add: bindM_def)
        next
          case (Inr nf)
          with n f have "validated E nf w3 = (r4, w4)" by (simp add: bindM_def)
          then show ?thesis by (rule validated_requests)
        qed
        have st': "bindM (domain_mappings E self) (validated E) w = (Inr False, w2)"
          using st b False by simp
        have "requests (snd (download E self w)) = requests w4"
        proof (cases r4)
          case (Inl e)
          with f have "bindM (bindM (attempt_naive_preview_download E self) (validated E))
                         (\<lambda>naive_download_successful.
                            returnM (False \<or> naive_download_successful)) w2 = (Inl e, w4)"
            by (simp add: bindM_Inl)
          then show ?thesis
            unfolding download_stages
            by (simp add: try_except_def bindM_stage[OF st'] handler_apply)
        next
          case (Inr fb)
          with f have "download E self w = (Inr fb, w4)"
            using st' by (intro download_fallback) simp_all
          then show ?thesis by simp
        qed
        with q4 q3 q2 dm e3 show ?thesis by simp
      qed
    qed
  qed
qed

lemma imgur_post_requests:
  assumes "domain post = Some ''i.imgur.com''" and "url post = Some u"
    and "get_counter_value E (global_counter w) = Inr v" and "v < max_posts_download E"
  shows "\<exists>rest. requests (snd (download_post E post w)) =
     requests w @
       (case construct_local_filename E (title post) (Some (replace u ''.gifv'' ''.mp4'')) None
               (local_download_dir E) of
          Inl e \<Rightarrow> []
        | Inr f \<Rightarrow> if files w f = None then [JStr (replace u ''.gifv'' ''.mp4'')] else [])
       @ rest
     \<and> (preview post = None \<longrightarrow> rest = [])"
proof -
  let ?self = "\<lparr>self_local_download_dir = local_download_dir E, self_title = title post,
                self_media_url = u, self_post_details = post, self_domain = ''i.imgur.com''\<rparr>"
  obtain b w' where d: "download E ?self w = (Inr b, w')"
    using download_returns by blast
  have q: "requests (snd (download_post E post w)) = requests w'"
    using download_post_reports[OF assms d] by simp
  have dm: "domain_mappings E ?self w = imgur E ?self w" by (simp add: domain_mappings_def)
  have rq: "requests (snd (imgur E ?self w)) =
     requests w @
       (case construct_local_filename E (title post) (Some (replace u ''.gifv'' ''.mp4'')) None
               (local_download_dir E) of
          Inl e \<Rightarrow> []
        | Inr f \<Rightarrow> if files w f = None then [JStr (replace u ''.gifv'' ''.mp4'')] else [])"
    using imgur_requests[of E ?self w]
    by (cases "construct_local_filename E (title post) (Some (replace u ''.gifv'' ''.mp4'')) None
                 (local_download_dir E)") simp_all
  obtain rest where ex: "requests (snd (download E ?self w))
                       = requests (snd (domain_mappings E ?self w)) @ rest"
      and em: "preview (self_post_details ?self) = None \<longrightarrow> rest = []"
    using download_requests_extend by blast
  have "requests (snd (download_post E post w)) =
     requests w @
       (case construct_local_filename E (title post) (Some (replace u ''.gifv'' ''.mp4'')) None
               (local_download_dir E) of
          Inl e \<Rightarrow> []
        | Inr f \<Rightarrow> if files w f = None then [JStr (replace u ''.gifv'' ''.mp4'')] else [])
       @ rest"
    using q d ex rq unfolding dm by simp
  moreover have "preview post = None \<longrightarrow> rest = []" using em by simp
  ultimately show ?thesis by (intro exI[of _ rest] conjI)
qed

text \<open>
  Claim C7, as the code has it. For a post whose domain is \<^verbatim>\<open>i.imgur.com\<close>, processed
  under quota, the first request \<^verbatim>\<open>download_post\<close> makes (when the file name can be
  built and the file is not there yet) is for the media URL with every occurrence of
  \<^verbatim>\<open>.gifv\<close> replaced by \<^verbatim>\<open>.mp4\<close>, wherever it stands; it is the only request when
  the post has no preview. The dispatch \<^verbatim>\<open>domain_mappings\<close> of a helper with that
  domain makes this request and no other. A URL that does not contain \<^verbatim>\<open>.gifv\<close> is
  fetched unchanged; a URL whose only occurrence is its suffix has the suffix replaced.
\<close>

theorem imgur_replaces_every_gifv:
  "(domain post = Some ''i.imgur.com'' \<and> url post = Some u
      \<and> get_counter_value E (global_counter w) = Inr v \<and> v < max_posts_download E
    \<longrightarrow> (\<exists>rest. requests (snd (download_post E post w)) =
           requests w @
             (case construct_local_filename E (title post) (Some (replace u ''.gifv'' ''.mp4''))
                     None (local_download_dir E) of
                Inl e \<Rightarrow> []
              | Inr f \<Rightarrow> if files w f = None then [JStr (replace u ''.gifv'' ''.mp4'')] else [])
             @ rest
           \<and> (preview post = None \<longrightarrow> rest = [])))
   \<and> (self_domain self = ''i.imgur.com''
    \<longrightarrow> requests (snd (domain_mappings E self w)) =
           requests w @
             (case construct_local_filename E (self_title self)
                     (Some (replace (self_media_url self) ''.gifv'' ''.mp4'')) None
                     (self_local_download_dir self) of
                Inl e \<Rightarrow> []
              | Inr f \<Rightarrow> if files w f = None
                         then [JStr (replace (self_media_url self) ''.gifv'' ''.mp4'')] else []))
   \<and> (\<not> contains u ''.gifv'' \<longrightarrow> replace u ''.gifv'' ''.mp4'' = u)
   \<and> (u = p @ ''.gifv'' \<and> \<not> contains p ''.gifv'' \<longrightarrow> replace u ''.gifv'' ''.mp4'' = p @ ''.mp4'')"
proof (intro conjI impI)
  assume "domain post = Some ''i.imgur.com'' \<and> url post = Some u
      \<and> get_counter_value E (global_counter w) = Inr v \<and> v < max_posts_download E"
  then show "\<exists>rest. requests (snd (download_post E post w)) =
           requests w @
             (case construct_local_filename E (title post) (Some (replace u ''.gifv'' ''.mp4''))
                     None (local_download_dir E) of
                Inl e \<Rightarrow> []
              | Inr f \<Rightarrow> if files w f = None then [JStr (replace u ''.gifv'' ''.mp4'')] else [])
             @ rest
           \<and> (preview post = None \<longrightarrow> rest = [])"
    using imgur_post_requests[of post u E w v] by simp
next
  assume "self_domain self = ''i.imgur.com''"
  then have "domain_mappings E self w = imgur E self w" by (simp add: domain_mappings_def)
  then show "requests (snd (domain_mappings E self w)) =
           requests w @
             (case construct_local_filename E (self_title self)
                     (Some (replace (self_media_url self) ''.gifv'' ''.mp4'')) None
                     (self_local_download_dir self) of
                Inl e \<Rightarrow> []
              | Inr f \<Rightarrow> if files w f = None
                         then [JStr (replace (self_media_url self) ''.gifv'' ''.mp4'')] else [])"
    by (simp add: imgur_requests)
next
  assume "\<not> contains u ''.gifv''"
  then show "replace u ''.gifv'' ''.mp4'' = u"
    by (rule replace_absent) simp
next
  assume "u = p @ ''.gifv'' \<and> \<not> contains p ''.gifv''"
  then show "replace u ''.gifv'' ''.mp4'' = p @ ''.mp4''"
    by (simp add: replace_suffix)
qed

theorem imgur_replaces_every_gifv_witness:
  "requests (snd (download_post example_env
                    (example_post ''i.imgur.com'' ''http://i.imgur.com/a.gifv'' None) example_world))
     = [JStr ''http://i.imgur.com/a.mp4'']
   \<and> requests (snd (domain_mappings example_env
                    (example_helper ''i.imgur.com'' ''http://i.imgur.com/a.gifv'' None) example_world))
     = [JStr ''http://i.imgur.com/a.mp4'']"
proof -
  have c: "\<not> contains ''http://i.imgur.com/a'' ''.gifv''"
    by (simp add: startswith_def)
  have r: "replace ''http://i.imgur.com/a.gifv'' ''.gifv'' ''.mp4'' = ''http://i.imgur.com/a.mp4''"
    using replace_suffix[OF c] by simp
  note t = imgur_replaces_every_gifv[of
        "example_post ''i.imgur.com'' ''http://i.imgur.com/a.gifv'' None"
        "''http://i.imgur.com/a.gifv''" example_env example_world 0
        "example_helper ''i.imgur.com'' ''http://i.imgur.com/a.gifv'' None"
        "''http://i.imgur.com/a''"]
  show ?thesis
    using t[THEN conjunct1] t[THEN conjunct2, THEN conjunct1]
    by (simp add: r example_post_def example_helper_def example_env_def example_world_def
          spec_construct_local_filename_def spec_get_counter_value_def del: replace.simps)
qed

text \<open>
  The claim as stated fails for an imgur post whose URL carries \<^verbatim>\<open>.gifv\<close> before a
  query string: the URL does not end in \<^verbatim>\<open>.gifv\<close>, yet the URL fetched is not the
  input.
\<close>

theorem gifv_inside_url_counterexample:
  "\<not> endswith ''http://i.imgur.com/a.gifv?1'' ''.gifv''
   \<and> requests (snd (download_post example_env
                      (example_post ''i.imgur.com'' ''http://i.imgur.com/a.gifv?1'' None)
                      example_world))
       = [JStr ''http://i.imgur.com/a.mp4?1'']
   \<and> ''http://i.imgur.com/a.mp4?1'' \<noteq> ''http://i.imgur.com/a.gifv?1''"
  using imgur_post_requests[of "example_post ''i.imgur.com'' ''http://i.imgur.com/a.gifv?1'' None"
      "''http://i.imgur.com/a.gifv?1''" example_env example_world 0]
  by (simp add: endswith_def startswith_def example_post_def example_env_def example_world_def
        spec_construct_local_filename_def spec_get_counter_value_def)

section \<open>A file that is already there\<close>







section \<open>The soft cap\<close>

lemma single_worker_is_download_post:
  "run_pool E [Check 0 post, Fetch 0, Record 0] (w, [Idle]) = (snd (download_post E post w), [Idle])"
  by (auto simp add: quota_check_def fetch_media_def record_attempt_def download_post_def
        do_get_counter_value_def do_increment_counter_def monad_defs
      split: sum.splits option.splits prod.splits)

lemma in_flight_le: "in_flight ws \<le> length ws"
  by (simp add: in_flight_def)

lemma in_flight_update:
  "i < length ws \<Longrightarrow>
     in_flight (ws[i := s]) + (if ws ! i = Idle then 0 else 1)
       = in_flight ws + (if s = Idle then 0 else 1)"
proof (induction ws arbitrary: i)
  case Nil
  then show ?case by simp
next
  case (Cons a ws)
  show ?case
  proof (cases i)
    case 0
    then show ?thesis by (simp add: in_flight_def)
  next
    case (Suc j)
    with Cons.prems have "j < length ws" by simp
    from Cons.IH[OF this] Suc show ?thesis by (auto simp add: in_flight_def split: if_splits)
  qed
qed

lemma download_keeps_global_counter: "keeps global_counter (download E self)"
  by (rule keeps_download) simp_all

lemma quota_check_counter:
  assumes "get_counter_value E = spec_get_counter_value"
    and "quota_check E post w = (w', s)"
  shows "global_counter w' = global_counter w
       \<and> (s = Idle \<or> s = Passed post \<and> global_counter w < max_posts_download E)"
  using assms
  by (auto simp add: quota_check_def do_get_counter_value_def spec_get_counter_value_def
      split: if_splits)

lemma fetch_media_counter:
  assumes "fetch_media E post w = (w', s)"
  shows "global_counter w' = global_counter w"
proof (cases "domain post")
  case None
  with assms show ?thesis by (simp add: fetch_media_def)
next
  case d: (Some d)
  show ?thesis
  proof (cases "url post")
    case None
    with d assms show ?thesis by (simp add: fetch_media_def)
  next
    case (Some u)
    let ?self = "\<lparr>self_local_download_dir = local_download_dir E, self_title = title post,
                  self_media_url = u, self_post_details = post, self_domain = d\<rparr>"
    obtain r w1 where dl: "download E ?self w = (r, w1)" by (cases "download E ?self w")
    have "global_counter w1 = global_counter w"
      using download_keeps_global_counter dl by (rule keepsD)
    with d Some dl assms show ?thesis
      by (cases r) (auto simp add: fetch_media_def logging_error_def)
  qed
qed

lemma record_attempt_counter:
  assumes "increment_counter E = spec_increment_counter"
  shows "global_counter (record_attempt E b w) \<le> global_counter w + 1"
  using assms
  by (simp add: record_attempt_def do_increment_counter_def spec_increment_counter_def)

lemma pool_step_bound:
  assumes c: "get_counter_value E = spec_get_counter_value"
    and r: "increment_counter E = spec_increment_counter"
    and n: "length ws = N"
    and b: "global_counter w + int (in_flight ws) \<le> max_posts_download E + int N - 1"
    and s: "pool_step E ev (w, ws) = (w', ws')"
  shows "length ws' = N
       \<and> global_counter w' + int (in_flight ws') \<le> max_posts_download E + int N - 1"
proof (cases ev)
  case (Check i post)
  show ?thesis
  proof (cases "i < length ws \<and> ws ! i = Idle")
    case False
    with Check s n b show ?thesis by auto
  next
    case True
    obtain w1 s1 where q: "quota_check E post w = (w1, s1)" by (cases "quota_check E post w")
    with Check True s have e: "w' = w1" "ws' = ws[i := s1]" by simp_all
    from quota_check_counter[OF c q]
    have g: "global_counter w1 = global_counter w"
      and k: "s1 = Idle \<or> s1 = Passed post \<and> global_counter w < max_posts_download E"
      by simp_all
    from k show ?thesis
    proof
      assume "s1 = Idle"
      with True have "ws[i := s1] = ws" by (simp add: list_update_same_conv)
      with e g n b show ?thesis by simp
    next
      assume p: "s1 = Passed post \<and> global_counter w < max_posts_download E"
      have "in_flight (ws[i := s1]) \<le> N"
        using in_flight_le[of "ws[i := s1]"] n by simp
      with p e g n show ?thesis by simp
    qed
  qed
next
  case (Fetch i)
  show ?thesis
  proof (cases "i < length ws")
    case False
    with Fetch s n b show ?thesis by simp
  next
    case True
    show ?thesis
    proof (cases "ws ! i")
      case Idle
      with Fetch True s n b show ?thesis by simp
    next
      case (Fetched x)
      with Fetch True s n b show ?thesis by simp
    next
      case (Passed post)
      obtain w1 s1 where f: "fetch_media E post w = (w1, s1)" by (cases "fetch_media E post w")
      with Fetch True Passed s have e: "w' = w1" "ws' = ws[i := s1]" by simp_all
      have g: "global_counter w1 = global_counter w" using f by (rule fetch_media_counter)
      have "in_flight (ws[i := s1]) \<le> in_flight ws"
        using in_flight_update[OF True, of s1] Passed by (simp split: if_splits)
      with e g n b show ?thesis by simp
    qed
  qed
next
  case (Record i)
  show ?thesis
  proof (cases "i < length ws")
    case False
    with Record s n b show ?thesis by simp
  next
    case True
    show ?thesis
    proof (cases "ws ! i")
      case Idle
      with Record True s n b show ?thesis by simp
    next
      case (Passed post)
      with Record True s n b show ?thesis by simp
    next
      case (Fetched x)
      with Record True s have e: "w' = record_attempt E x w" "ws' = ws[i := Idle]" by simp_all
      have g: "global_counter (record_attempt E x w) \<le> global_counter w + 1"
        using r by (rule record_attempt_counter)
      have "in_flight (ws[i := Idle]) + 1 = in_flight ws"
        using in_flight_update[OF True, of Idle] Fetched by simp
      with e g n b show ?thesis by simp
    qed
  qed
qed

lemma run_pool_bound:
  assumes c: "get_counter_value E = spec_get_counter_value"
    and r: "increment_counter E = spec_increment_counter"
  shows "length ws = N
       \<Longrightarrow> global_counter w + int (in_flight ws) \<le> max_posts_download E + int N - 1
       \<Longrightarrow> run_pool E evs (w, ws) = (w', ws')
       \<Longrightarrow> length ws' = N
           \<and> global_counter w' + int (in_flight ws') \<le> max_posts_download E + int N - 1"
proof (induction evs arbitrary: w ws)
  case Nil
  then show ?case by simp
next
  case (Cons ev evs)
  obtain w1 ws1 where s: "pool_step E ev (w, ws) = (w1, ws1)" by (cases "pool_step E ev (w, ws)")
  from pool_step_bound[OF c r Cons.prems(1,2) s]
  have "length ws1 = N"
    and "global_counter w1 + int (in_flight ws1) \<le> max_posts_download E + int N - 1"
    by simp_all
  moreover have "run_pool E evs (w1, ws1) = (w', ws')" using Cons.prems(3) s by simp
  ultimately show ?case by (rule Cons.IH)
qed

text \<open>
  Claim C9. One worker that checks, downloads and records without interruption does what
  \<^verbatim>\<open>download_post\<close> does. With the counter of the spec, \<open>N\<close> workers (at least one) and
  a count that starts at or below the maximum, the count never exceeds the maximum by more
  than \<open>N - 1\<close>, whatever the schedule and the posts: a worker passes the check only
  below the maximum, and each worker that has passed adds at most one, so the count plus
  the number of workers in flight stays within the same bound.
\<close>

theorem soft_cap:
  assumes "get_counter_value E = spec_get_counter_value"
    and "increment_counter E = spec_increment_counter"
    and "global_counter w \<le> max_posts_download E"
    and "0 < N"
  shows "run_pool E [Check 0 post, Fetch 0, Record 0] (w, [Idle])
           = (snd (download_post E post w), [Idle])
       \<and> global_counter (fst (run_pool E evs (w, replicate N Idle)))
           \<le> max_posts_download E + int N - 1
       \<and> global_counter (fst (run_pool E evs (w, replicate N Idle)))
           + int (in_flight (snd (run_pool E evs (w, replicate N Idle))))
           \<le> max_posts_download E + int N - 1"
proof -
  obtain w' ws' where run: "run_pool E evs (w, replicate N Idle) = (w', ws')"
    by (cases "run_pool E evs (w, replicate N Idle)")
  have "in_flight (replicate N Idle) = 0" by (simp add: in_flight_def)
  then have "global_counter w + int (in_flight (replicate N Idle))
               \<le> max_posts_download E + int N - 1"
    using assms(3,4) by simp
  from run_pool_bound[OF assms(1,2) _ this run]
  have b: "global_counter w' + int (in_flight ws') \<le> max_posts_download E + int N - 1" by simp
  then have "global_counter w' \<le> max_posts_download E + int N - 1" by simp
  then have "global_counter (fst (run_pool E evs (w, replicate N Idle)))
               \<le> max_posts_download E + int N - 1"
    using run by simp
  moreover have "global_counter (fst (run_pool E evs (w, replicate N Idle)))
           + int (in_flight (snd (run_pool E evs (w, replicate N Idle))))
           \<le> max_posts_download E + int N - 1"
    using b run by simp
  ultimately show ?thesis by (intro conjI single_worker_is_download_post)
qed

theorem soft_cap_witness:
  "global_counter (fst (run_pool example_env
       [Check 0 (example_post ''i.redd.it'' ''http://i.redd.it/x.jpg'' None), Fetch 0, Record 0,
        Check 0 (example_post ''i.redd.it'' ''http://i.redd.it/x.jpg'' None),
        Check 1 (example_post ''i.redd.it'' ''http://i.redd.it/x.jpg'' None),
        Check 2 (example_post ''i.redd.it'' ''http://i.redd.it/x.jpg'' None),
        Fetch 0, Fetch 1, Fetch 2, Record 2, Record 1, Record 0]
       (example_world, replicate 3 Idle))) = 4
   \<and> global_counter (fst (run_pool example_env
       [Check 0 (example_post ''i.redd.it'' ''http://i.redd.it/x.jpg'' None), Fetch 0, Record 0,
        Check 0 (example_post ''i.redd.it'' ''http://i.redd.it/x.jpg'' None),
        Check 1 (example_post ''i.redd.it'' ''http://i.redd.it/x.jpg'' None),
        Check 2 (example_post ''i.redd.it'' ''http://i.redd.it/x.jpg'' None),
        Fetch 0, Fetch 1, Fetch 2, Record 2, Record 1, Record 0]
       (example_world, replicate 3 Idle))) \<le> max_posts_download example_env + int 3 - 1
   \<and> max_posts_download example_env + int 3 - 1 = 4"
proof -
  let ?post = "example_post ''i.redd.it'' ''http://i.redd.it/x.jpg'' None"
  let ?evs = "[Check 0 ?post, Fetch 0, Record 0, Check 0 ?post, Check 1 ?post, Check 2 ?post,
               Fetch 0, Fetch 1, Fetch 2, Record 2, Record 1, Record 0]"
  have first: "fetch_media example_env ?post example_world
                 = (example_world\<lparr>files := [''dl/cat_x.jpg'' \<mapsto> ''JFIF''],
                                   requests := [JStr ''http://i.redd.it/x.jpg'']\<rparr>, Fetched True)"
    by (simp add: fetch_media_def method_defs monad_defs example_defs)
  have again: "\<And>c a. fetch_media example_env ?post
                  \<lparr>global_counter = c, files = [''dl/cat_x.jpg'' \<mapsto> ''JFIF''], attempts = a,
                   requests = [JStr ''http://i.redd.it/x.jpg''], lookups = [], log = []\<rparr>
                 = (\<lparr>global_counter = c, files = [''dl/cat_x.jpg'' \<mapsto> ''JFIF''], attempts = a,
                     requests = [JStr ''http://i.redd.it/x.jpg''], lookups = [], log = []\<rparr>,
                    Fetched True)"
    by (simp add: fetch_media_def method_defs monad_defs example_defs)
  have qc: "\<And>w. global_counter w < 2
              \<Longrightarrow> quota_check example_env ?post w = (w, Passed ?post)"
    by (simp add: quota_check_def do_get_counter_value_def example_env_def
          spec_get_counter_value_def)
  have rec: "\<And>w. record_attempt example_env True w
               = w\<lparr>global_counter := global_counter w + 1, attempts := attempts w @ [True]\<rparr>"
    by (simp add: record_attempt_def do_increment_counter_def example_env_def
          spec_increment_counter_def)
  have run: "global_counter (fst (run_pool example_env ?evs (example_world, replicate 3 Idle))) = 4"
    by (simp add: qc rec first[unfolded example_world_def] again example_world_def
          numeral_2_eq_2 numeral_3_eq_3)
  have cnt: "get_counter_value example_env = spec_get_counter_value"
    and inc: "increment_counter example_env = spec_increment_counter"
    and le: "global_counter example_world \<le> max_posts_download example_env"
    by (simp_all add: example_env_def example_world_def)
  have "global_counter (fst (run_pool example_env ?evs (example_world, replicate 3 Idle)))
          \<le> max_posts_download example_env + int 3 - 1"
    using soft_cap[OF cnt inc le, of 3 ?post ?evs] by simp
  with run show ?thesis by (simp add: example_env_def)
qed

end
